theory Spec2Isabelle
  imports Main
begin

unbundle bit_operations_syntax

section \<open>The lz77ppm library: data model\<close>

text \<open>
  A shallow embedding of liblz77ppm (lz77.c, ustream.c, cstream.c, tree.c, tinyhuff.c,
  bit.c).  Unsigned machine integers are natural numbers; a conversion to a narrower
  type is written out as \<open>mod 2 ^ w\<close> where the source performs one, and C's \<open>int\<close>
  computations that can become negative are carried out in \<open>int\<close>.  Pointers into a
  stream's buffer (\<open>window\<close>, \<open>lookahead\<close>) are offsets from the start of that buffer.

  The streams are modelled in their memory-backed form (\<open>fd = -1\<close>): reads and writes on
  a descriptor belong to the environment, and a function that would touch a descriptor
  answers \<open>DescriptorIO\<close>.  Assertions are compiled in (no \<open>NDEBUG\<close>): a failed
  \<open>assert\<close> ends the run with \<open>AssertionFailed\<close>.  An operation the C standard leaves
  undefined (a read or write outside a buffer, a shift by the width of the type or more)
  ends the run with \<open>UndefinedBehaviour\<close>.  A function with an unbounded loop takes a
  bound on the number of iterations and answers \<open>None\<close> when the bound is used up.
\<close>

datatype failure = AssertionFailed | UndefinedBehaviour | DescriptorIO

datatype errno = EINVAL | ENOMEM

type_synonym byte = nat

subsection \<open>Constants (lz77.h, tinyhuff.h, tree.h, tinyhuff.c)\<close>

definition LZ77PPM_VERSION :: nat where "LZ77PPM_VERSION = 0x10"
definition LZ77_TYPE_BITS :: nat where "LZ77_TYPE_BITS = 1"
definition LZ77_NEXT_BITS :: nat where "LZ77_NEXT_BITS = 8"
definition LZ77_SYMBOL_BITS :: nat where "LZ77_SYMBOL_BITS = LZ77_TYPE_BITS + LZ77_NEXT_BITS"
definition LZ77_MIN_WINDOW_SIZE :: nat where "LZ77_MIN_WINDOW_SIZE = 4"
definition LZ77_MIN_LOOKAHEAD_SIZE :: nat where "LZ77_MIN_LOOKAHEAD_SIZE = 2"
definition LZ77_TINYHUFF_MIN_CODE_BITS :: nat where "LZ77_TINYHUFF_MIN_CODE_BITS = 2"
definition MAX_CODE_BITS :: nat where "MAX_CODE_BITS = 6"

text \<open>\<open>static const uint16_t UNUSED = -1\<close>\<close>
definition UNUSED :: nat where "UNUSED = 65535"

subsection \<open>tinyhuff.c: the code of the match lengths\<close>

record lz77_tinyhuff =
  min_value :: nat
  max_value :: nat
  max_encoded_value :: nat
  diff_nbits :: nat

text \<open>\<open>encoding_table\<close>: pairs \<open>(code, nbits)\<close>.\<close>
definition encoding_table :: "(nat \<times> nat) list" where
  "encoding_table = [(0, 6), (3, 2), (2, 2), (1, 2), (1, 3), (1, 4), (1, 5), (1, 6)]"

definition ENCODING_TABLE_SIZE :: nat where
  "ENCODING_TABLE_SIZE = length encoding_table"

text \<open>\<open>decoding_table\<close>: 64 pairs \<open>(value, nbits)\<close>, indexed by the first six bits.\<close>
definition decoding_table :: "(nat \<times> nat) list" where
  "decoding_table =
     [
      (0, 6), (6, 6), (5, 5), (5, 5), (4, 4), (4, 4), (4, 4), (4, 4),
      (3, 3), (3, 3), (3, 3), (3, 3), (3, 3), (3, 3), (3, 3), (3, 3),
      (2, 2), (2, 2), (2, 2), (2, 2), (2, 2), (2, 2), (2, 2), (2, 2),
      (2, 2), (2, 2), (2, 2), (2, 2), (2, 2), (2, 2), (2, 2), (2, 2),
      (1, 2), (1, 2), (1, 2), (1, 2), (1, 2), (1, 2), (1, 2), (1, 2),
      (1, 2), (1, 2), (1, 2), (1, 2), (1, 2), (1, 2), (1, 2), (1, 2),
      (0, 2), (0, 2), (0, 2), (0, 2), (0, 2), (0, 2), (0, 2), (0, 2),
      (0, 2), (0, 2), (0, 2), (0, 2), (0, 2), (0, 2), (0, 2), (0, 2)
     ]"

text \<open>\<open>r = 1; while (value >>= 1) r++;\<close> on a \<open>uint16_t\<close>.\<close>
fun number_of_bits :: "nat \<Rightarrow> nat" where
  "number_of_bits v = (if v div 2 = 0 then 1 else 1 + number_of_bits (v div 2))"

declare number_of_bits.simps [simp del]

definition tinyhuff_init :: "nat \<Rightarrow> nat \<Rightarrow> lz77_tinyhuff" where
  "tinyhuff_init minv maxv =
     (let max_enc = (minv + ENCODING_TABLE_SIZE - 2) mod 65536;
          max_diff = int maxv - int max_enc
      in \<lparr> min_value = minv, max_value = maxv, max_encoded_value = max_enc,
           diff_nbits = (if max_diff \<ge> 0 then number_of_bits (nat max_diff mod 65536) else 0) \<rparr>)"

text \<open>Returns \<open>(nbits, code)\<close>; \<open>*code\<close> is a \<open>uint16_t\<close>.\<close>
definition tinyhuff_encode :: "lz77_tinyhuff \<Rightarrow> nat \<Rightarrow> failure + (nat \<times> nat)" where
  "tinyhuff_encode enc v =
     (if \<not> (v = 0 \<or> v \<ge> min_value enc) then Inl AssertionFailed
      else if \<not> (v \<le> max_value enc) then Inl AssertionFailed
      else
        let index = (if v \<noteq> 0
                     then (if 1 + v - min_value enc > ENCODING_TABLE_SIZE - 1
                           then ENCODING_TABLE_SIZE - 1 else 1 + v - min_value enc)
                     else 0);
            code = fst (encoding_table ! index);
            nbits = snd (encoding_table ! index)
        in if v \<ge> max_encoded_value enc then
             (if \<not> (diff_nbits enc > 0) then Inl AssertionFailed
              else
                let diff_code = (v - max_encoded_value enc) mod 65536
                in if diff_code \<noteq> (diff_code AND (2 ^ diff_nbits enc - 1))
                   then Inl AssertionFailed
                   else Inr ((nbits + diff_nbits enc) mod 256,
                             (push_bit (diff_nbits enc) code OR diff_code) mod 65536))
           else Inr (nbits, code))"

definition tinyhuff_can_encode :: "lz77_tinyhuff \<Rightarrow> nat \<Rightarrow> bool" where
  "tinyhuff_can_encode enc v \<longleftrightarrow> v = 0 \<or> (min_value enc \<le> v \<and> v \<le> max_value enc)"

text \<open>
  \<open>tinyhuff_decode enc peeked_data peeked_length v\<close> returns \<open>(consumed, *value)\<close>, where
  \<open>v\<close> is \<open>*value\<close> on entry (it is left untouched by the first early return).
\<close>
definition tinyhuff_decode ::
  "lz77_tinyhuff \<Rightarrow> nat \<Rightarrow> nat \<Rightarrow> nat \<Rightarrow> failure + (nat \<times> nat)" where
  "tinyhuff_decode enc peeked_data peeked_length v =
     (if \<not> (peeked_length \<le> 16) then Inl AssertionFailed
      else if peeked_length < LZ77_TINYHUFF_MIN_CODE_BITS then Inr (0, v)
      else
        let tpos = 16 - MAX_CODE_BITS;
            mask = 2 ^ MAX_CODE_BITS - 1;
            index = drop_bit tpos peeked_data AND mask;
            v1 = fst (decoding_table ! index);
            to_consume = snd (decoding_table ! index)
        in if peeked_length < to_consume then Inr (0, v1)
           else
             let v2 = (if index > 0 then (v1 + min_value enc) mod 65536 else v1)
             in if v2 = max_encoded_value enc then
                  (if \<not> (diff_nbits enc > 0) then Inl AssertionFailed
                   else if peeked_length < to_consume + diff_nbits enc then Inr (0, v2)
                   else
                     let tpos2 = tpos - diff_nbits enc;
                         mask2 = 2 ^ diff_nbits enc - 1;
                         diff = drop_bit tpos2 peeked_data AND mask2;
                         v3 = (v2 + diff) mod 65536;
                         to_consume2 = to_consume + diff_nbits enc
                     in if \<not> (v3 \<le> max_value enc) then Inl AssertionFailed
                        else if \<not> (to_consume2 \<le> peeked_length) then Inl AssertionFailed
                        else Inr (to_consume2, v3))
                else if \<not> (v2 \<le> max_value enc) then Inl AssertionFailed
                else if \<not> (to_consume \<le> peeked_length) then Inl AssertionFailed
                else Inr (to_consume, v2))"

subsection \<open>tree.h, ustream_internal.h, cstream_internal.h: the stream objects\<close>

record lz77_tree =
  parent :: nat
  smaller :: nat
  larger :: nat

text \<open>
  \<open>struct _lz77_ustream\<close>.  \<open>u_data\<close> is the buffer that \<open>data\<close> and \<open>cdata\<close> point to;
  \<open>u_window\<close> and \<open>u_lookahead\<close> are offsets into it.  The pointer \<open>from\<close> is not
  stored: the functions that follow it take the compressed stream as an argument.
\<close>
record lz77_ustream =
  u_fd :: int
  u_data :: "byte list"
  u_size :: nat
  u_end :: nat
  u_can_realloc :: nat
  u_is_input :: nat
  u_window :: nat
  u_window_maxsize :: nat
  u_window_currsize :: nat
  u_window_nbits :: nat
  u_lookahead :: nat
  u_lookahead_maxsize :: nat
  u_lookahead_currsize :: nat
  u_tree :: "lz77_tree list"
  u_length_encoder :: lz77_tinyhuff
  u_processed_bytes :: nat

text \<open>\<open>struct _lz77_cstream\<close>; \<open>c_pos\<close> and \<open>c_end\<close> count bits.\<close>
record lz77_cstream =
  c_fd :: int
  c_data :: "byte list"
  c_size :: nat
  c_pos :: nat
  c_end :: nat
  c_cached :: nat
  c_cached_nbits :: nat
  c_can_realloc :: nat
  c_is_input :: nat
  c_window_maxsize :: nat
  c_lookahead_maxsize :: nat
  c_processed_bits :: nat

text \<open>What \<open>calloc\<close> and \<open>malloc\<close> hand out: zeroed objects, and (for \<open>malloc\<close>, whose
  content is indeterminate) zero bytes and zero nodes.  Allocation is taken to succeed.\<close>

definition calloc_tinyhuff :: lz77_tinyhuff where
  "calloc_tinyhuff = \<lparr> min_value = 0, max_value = 0, max_encoded_value = 0, diff_nbits = 0 \<rparr>"

definition malloc_tree :: "nat \<Rightarrow> lz77_tree list" where
  "malloc_tree n = replicate n \<lparr> parent = 0, smaller = 0, larger = 0 \<rparr>"

definition malloc_bytes :: "nat \<Rightarrow> byte list" where
  "malloc_bytes n = replicate n 0"

subsection \<open>ustream.c: creating the uncompressed streams\<close>

text \<open>A creator returns \<open>Inl e\<close> for \<open>NULL\<close> with \<open>errno = e\<close>, and \<open>Inr\<close> the object.
  A \<open>NULL\<close> data pointer is \<open>None\<close>.\<close>

definition lz77_ustream_from_memory ::
  "byte list option \<Rightarrow> nat \<Rightarrow> nat \<Rightarrow> nat \<Rightarrow> errno + lz77_ustream" where
  "lz77_ustream_from_memory data sz window_size lookahead_size =
     (if data = None then Inl EINVAL
      else if window_size < LZ77_MIN_WINDOW_SIZE then Inl EINVAL
      else if lookahead_size < LZ77_MIN_LOOKAHEAD_SIZE then Inl EINVAL
      else Inr \<lparr> u_fd = -1, u_data = the data, u_size = sz, u_end = sz,
                 u_can_realloc = 0, u_is_input = 1, u_window = 0,
                 u_window_maxsize = window_size, u_window_currsize = 0,
                 u_window_nbits = number_of_bits ((window_size - 1) mod 65536),
                 u_lookahead = 0, u_lookahead_maxsize = lookahead_size,
                 u_lookahead_currsize = 0, u_tree = malloc_tree (window_size + 1),
                 u_length_encoder = calloc_tinyhuff, u_processed_bytes = 0 \<rparr>)"

definition lz77_ustream_from_descriptor :: "int \<Rightarrow> nat \<Rightarrow> nat \<Rightarrow> errno + lz77_ustream" where
  "lz77_ustream_from_descriptor fd window_size lookahead_size =
     (if fd < 0 then Inl EINVAL
      else if window_size < LZ77_MIN_WINDOW_SIZE then Inl EINVAL
      else if lookahead_size < LZ77_MIN_LOOKAHEAD_SIZE then Inl EINVAL
      else
        let data_size = (window_size + lookahead_size) * 10
        in Inr \<lparr> u_fd = fd, u_data = malloc_bytes data_size, u_size = data_size, u_end = 0,
                   u_can_realloc = 1, u_is_input = 1, u_window = 0,
                   u_window_maxsize = window_size, u_window_currsize = 0,
                   u_window_nbits = number_of_bits ((window_size - 1) mod 65536),
                   u_lookahead = 0, u_lookahead_maxsize = lookahead_size,
                   u_lookahead_currsize = 0, u_tree = malloc_tree (window_size + 1),
                   u_length_encoder = calloc_tinyhuff, u_processed_bytes = 0 \<rparr>)"

text \<open>The first argument is \<open>from\<close>: \<open>None\<close> for \<open>NULL\<close>.  A \<open>NULL\<close> buffer is the empty one.\<close>
definition lz77_ustream_to_memory ::
  "lz77_cstream option \<Rightarrow> byte list option \<Rightarrow> nat \<Rightarrow> nat \<Rightarrow> errno + lz77_ustream" where
  "lz77_ustream_to_memory from_cs data sz can_realloc =
     (if from_cs = None then Inl EINVAL
      else Inr \<lparr> u_fd = -1, u_data = (case data of None \<Rightarrow> [] | Some d \<Rightarrow> d),
                 u_size = (if data = None then 0 else sz), u_end = 0,
                 u_can_realloc = can_realloc, u_is_input = 0, u_window = 0,
                 u_window_maxsize = 0, u_window_currsize = 0, u_window_nbits = 0,
                 u_lookahead = 0, u_lookahead_maxsize = 0, u_lookahead_currsize = 0,
                 u_tree = [], u_length_encoder = calloc_tinyhuff, u_processed_bytes = 0 \<rparr>)"

subsection \<open>cstream.c: creating the compressed streams\<close>

definition lz77_cstream_from_memory :: "byte list option \<Rightarrow> nat \<Rightarrow> errno + lz77_cstream" where
  "lz77_cstream_from_memory data sz =
     (if data = None then Inl EINVAL
      else Inr \<lparr> c_fd = -1, c_data = the data, c_size = sz, c_pos = 0, c_end = sz * 8,
                 c_cached = 0, c_cached_nbits = 0, c_can_realloc = 0, c_is_input = 1,
                 c_window_maxsize = 0, c_lookahead_maxsize = 0, c_processed_bits = 0 \<rparr>)"

definition lz77_cstream_to_memory ::
  "lz77_ustream option \<Rightarrow> byte list option \<Rightarrow> nat \<Rightarrow> nat \<Rightarrow> errno + lz77_cstream" where
  "lz77_cstream_to_memory from_us data sz can_realloc =
     (case from_us of
        None \<Rightarrow> Inl EINVAL
      | Some us \<Rightarrow>
          Inr \<lparr> c_fd = -1, c_data = (case data of None \<Rightarrow> [] | Some d \<Rightarrow> d),
                c_size = (if data = None then 0 else sz), c_pos = 0, c_end = 0,
                c_cached = 0, c_cached_nbits = 0, c_can_realloc = can_realloc, c_is_input = 0,
                c_window_maxsize = u_window_maxsize us,
                c_lookahead_maxsize = u_lookahead_maxsize us, c_processed_bits = 0 \<rparr>)"

subsection \<open>tree.c: initialising the tree; ustream.c: opening a stream\<close>

text \<open>The root is the node at index \<open>window_maxsize\<close>.\<close>
definition lz77_tree_init :: "lz77_ustream \<Rightarrow> failure + lz77_ustream" where
  "lz77_tree_init us =
     (if \<not> u_window_maxsize us < length (u_tree us) then Inl UndefinedBehaviour
      else Inr (us\<lparr> u_tree := (u_tree us)[u_window_maxsize us :=
                   \<lparr> parent = UNUSED, smaller = UNUSED, larger = UNUSED \<rparr>] \<rparr>))"

text \<open>
  \<open>ustream_open us from_cs\<close> returns the \<open>int\<close> result and the stream; \<open>from_cs\<close> is the
  object \<open>ustream->from\<close> points to (\<open>None\<close> for \<open>NULL\<close>).  The assignment
  \<open>lookahead_currsize = size\<close> converts a \<open>uint32_t\<close> to a \<open>uint16_t\<close>.
\<close>
definition ustream_open ::
  "lz77_ustream \<Rightarrow> lz77_cstream option \<Rightarrow> failure + (int \<times> lz77_ustream)" where
  "ustream_open us from_cs =
     (if \<not> (u_window_currsize us = 0 \<and> u_lookahead_currsize us = 0) then Inl AssertionFailed
      else if \<not> (0 < u_is_input us \<or> u_window_nbits us = 0) then Inl AssertionFailed
      else if u_is_input us = 0 \<and> from_cs = None then Inl UndefinedBehaviour
      else if u_is_input us = 0 \<and>
              \<not> (c_window_maxsize (the from_cs) \<ge> LZ77_MIN_WINDOW_SIZE) then Inl AssertionFailed
      else if u_is_input us = 0 \<and>
              \<not> (c_lookahead_maxsize (the from_cs) \<ge> LZ77_MIN_LOOKAHEAD_SIZE)
           then Inl AssertionFailed
      else
        let opened =
          (if u_is_input us \<noteq> 0 then
             (if u_fd us \<ge> 0 then Inl DescriptorIO
              else
                let cur = u_size us mod 65536;
                    cur' = (if cur > u_lookahead_maxsize us then u_lookahead_maxsize us else cur)
                in lz77_tree_init (us\<lparr> u_lookahead_currsize := cur' \<rparr>))
           else
             let wmax = c_window_maxsize (the from_cs);
                 us1 = us\<lparr> u_window_maxsize := wmax,
                           u_window_nbits := number_of_bits ((wmax - 1) mod 65536),
                           u_lookahead_maxsize := c_lookahead_maxsize (the from_cs) \<rparr>
             in if u_fd us \<ge> 0
                then Inr (us1\<lparr> u_data := malloc_bytes (wmax * 10), u_size := wmax * 10,
                               u_window := 0 \<rparr>)
                else Inr us1)
        in (case opened of
             Inl e \<Rightarrow> Inl e
           | Inr us2 \<Rightarrow>
               let min_match_length =
                     (LZ77_TYPE_BITS + u_window_nbits us2 + LZ77_TINYHUFF_MIN_CODE_BITS)
                       div LZ77_SYMBOL_BITS + 1
               in Inr (0, us2\<lparr> u_length_encoder :=
                                 tinyhuff_init min_match_length (u_lookahead_maxsize us2) \<rparr>)))"

subsection \<open>The bit-width of the specification\<close>

text \<open>The specification's bit-width of \<open>n\<close>: \<open>1 + \<lfloor>log\<^sub>2 (max 1 n)\<rfloor>\<close>.  It is the
  yardstick that \<open>number_of_bits\<close> is compared with.\<close>

fun floor_log2 :: "nat \<Rightarrow> nat" where
  "floor_log2 n = (if n < 2 then 0 else 1 + floor_log2 (n div 2))"

declare floor_log2.simps [simp del]

definition spec_bit_width :: "nat \<Rightarrow> nat" where
  "spec_bit_width n = 1 + floor_log2 (max 1 n)"

subsection \<open>bit.c: single bits of a byte buffer\<close>

text \<open>Bit 0 is the most significant bit of the first byte.\<close>

definition bit_get :: "byte list \<Rightarrow> nat \<Rightarrow> nat" where
  "bit_get bits pos = drop_bit (7 - pos mod 8) (bits ! (pos div 8)) AND 1"

definition bit_set :: "byte list \<Rightarrow> nat \<Rightarrow> nat \<Rightarrow> byte list" where
  "bit_set bits pos state =
     (if state \<noteq> 0
      then bits[pos div 8 := (bits ! (pos div 8)) OR drop_bit (pos mod 8) 0x80]
      else bits[pos div 8 := (bits ! (pos div 8)) AND (255 - drop_bit (pos mod 8) 0x80)])"

subsection \<open>Byte order (\<open>htons\<close>, \<open>ntohs\<close>, \<open>htobe64\<close>)\<close>

text \<open>
  A \<open>uint16_t\<close> or \<open>uint64_t\<close> object that holds a value in network byte order is
  modelled by its bytes in memory, first byte first; this does not depend on the byte
  order of the host.
\<close>

definition be16_bytes :: "nat \<Rightarrow> byte list" where
  "be16_bytes x = [x div 256 mod 256, x mod 256]"

definition be16_value :: "byte list \<Rightarrow> nat" where
  "be16_value bs = (bs ! 0) * 256 + bs ! 1"

definition be64_bytes :: "nat \<Rightarrow> byte list" where
  "be64_bytes x =
     [drop_bit 56 x mod 256, drop_bit 48 x mod 256, drop_bit 40 x mod 256, drop_bit 32 x mod 256,
      drop_bit 24 x mod 256, drop_bit 16 x mod 256, drop_bit 8 x mod 256, x mod 256]"

subsection \<open>cstream.c: reading bits\<close>

text \<open>
  The loop of \<open>cstream_peek\<close>: copies the bits \<open>pos + i\<close> of \<open>cdata\<close> that are set
  to the bits \<open>startbit + i\<close> of \<open>buffer\<close>, and returns the final \<open>i\<close> with the buffer.
\<close>
function peek_bits ::
  "byte list \<Rightarrow> nat \<Rightarrow> nat \<Rightarrow> byte list \<Rightarrow> nat \<Rightarrow> nat \<Rightarrow> nat \<Rightarrow> failure + (nat \<times> byte list)" where
  "peek_bits cdata pos endb buffer startbit nbits i =
     (if i < nbits \<and> pos + i < endb then
        (if \<not> (pos + i) div 8 < length cdata then Inl UndefinedBehaviour
         else if \<not> (startbit + i) div 8 < length buffer then Inl UndefinedBehaviour
         else if bit_get cdata (pos + i) \<noteq> 0
         then peek_bits cdata pos endb (bit_set buffer (startbit + i) 1) startbit nbits (i + 1)
         else if \<not> (bit_get buffer (startbit + i) = 0) then Inl AssertionFailed
         else peek_bits cdata pos endb buffer startbit nbits (i + 1))
      else Inr (i, buffer))"
  by pat_completeness auto
termination
  by (relation "measure (\<lambda>(cdata, pos, endb, buffer, startbit, nbits, i). nbits - i)") auto

declare peek_bits.simps [simp del]

text \<open>Returns the number of bits peeked (never negative without a descriptor) and the
  buffer.  The stream itself is unchanged when it is backed by memory.\<close>
definition cstream_peek ::
  "lz77_cstream \<Rightarrow> byte list \<Rightarrow> nat \<Rightarrow> nat \<Rightarrow> failure + (nat \<times> byte list)" where
  "cstream_peek cs buffer startbit nbits =
     (if c_is_input cs = 0 then Inl AssertionFailed
      else if c_pos cs + nbits > c_end cs \<and> c_fd cs \<ge> 0 then Inl DescriptorIO
      else peek_bits (c_data cs) (c_pos cs) (c_end cs) buffer startbit nbits 0)"

definition cstream_consume :: "lz77_cstream \<Rightarrow> nat \<Rightarrow> failure + (nat \<times> lz77_cstream)" where
  "cstream_consume cs nbits =
     (if c_is_input cs = 0 then Inl AssertionFailed
      else if \<not> (c_pos cs + nbits \<le> c_end cs) then Inl AssertionFailed
      else Inr (nbits, cs\<lparr> c_pos := c_pos cs + nbits,
                            c_processed_bits := (c_processed_bits cs + nbits) mod 2 ^ 64 \<rparr>))"

text \<open>
  The loop of \<open>cstream_read\<close>, with \<open>i\<close> the count of the previous round.  The bound
  \<open>fuel\<close> limits the rounds.
\<close>
function cstream_read_loop ::
  "nat \<Rightarrow> lz77_cstream \<Rightarrow> byte list \<Rightarrow> nat \<Rightarrow> nat \<Rightarrow> nat
   \<Rightarrow> (failure + (nat \<times> lz77_cstream \<times> byte list)) option" where
  "cstream_read_loop fuel cs buffer startbit nbits i =
     (if fuel = 0 then None
      else (case cstream_peek cs buffer startbit nbits of
             Inl e \<Rightarrow> Some (Inl e)
           | Inr (ii, buffer') \<Rightarrow>
               if ii \<le> 0 then Some (Inr (ii, cs, buffer'))
               else if ii = i \<or> ii = nbits then
                 (case cstream_consume cs (ii mod 65536) of
                    Inl e \<Rightarrow> Some (Inl e)
                  | Inr (_, cs') \<Rightarrow> Some (Inr (ii, cs', buffer')))
               else cstream_read_loop (fuel - 1) cs buffer' startbit nbits ii))"
  by pat_completeness auto
termination
  by (relation "measure (\<lambda>(fuel, cs, buffer, startbit, nbits, i). fuel)") auto

declare cstream_read_loop.simps [simp del]

definition cstream_read ::
  "nat \<Rightarrow> lz77_cstream \<Rightarrow> byte list \<Rightarrow> nat \<Rightarrow> nat
   \<Rightarrow> (failure + (nat \<times> lz77_cstream \<times> byte list)) option" where
  "cstream_read fuel cs buffer startbit nbits =
     (if c_is_input cs = 0 then Some (Inl AssertionFailed)
      else cstream_read_loop fuel cs buffer startbit nbits 0)"

subsection \<open>cstream.c: writing bytes and bits\<close>

text \<open>
  The block of \<open>cstream_write\<close> that makes room for \<open>nbytes\<close> more bytes; \<open>Inr None\<close>
  stands for \<open>errno = ENOMEM; return -1\<close>.  The reallocated buffer keeps its bytes and is
  filled up with zero bytes; \<open>size * 1.1\<close> is computed exactly (the truncated product
  agrees with the source's for every 32-bit size).
\<close>
definition cstream_write_grow :: "lz77_cstream \<Rightarrow> nat \<Rightarrow> failure + lz77_cstream option" where
  "cstream_write_grow cs nbytes =
     (if c_end cs div 8 + nbytes > c_size cs then
        (if c_fd cs \<ge> 0 then Inl DescriptorIO
         else if c_can_realloc cs = 0 then Inr None
         else
           let new_size0 = (c_end cs div 8 + nbytes) mod 2 ^ 32;
               new_size1 = (if new_size0 < 1024 then 1024 else new_size0);
               new_size = (if new_size1 * 10 < c_size cs * 11
                           then c_size cs * 11 div 10 else new_size1)
           in Inr (Some (cs\<lparr> c_size := new_size,
                               c_data := take new_size
                                 (c_data cs @ replicate (new_size - length (c_data cs)) 0) \<rparr>)))
      else Inr (Some cs))"

text \<open>The rest of \<open>cstream_write\<close>: the \<open>memcpy\<close> to the byte position \<open>end / 8\<close> and
  the two counters.\<close>
definition cstream_write_store ::
  "lz77_cstream \<Rightarrow> byte list \<Rightarrow> nat \<Rightarrow> failure + (int \<times> lz77_cstream)" where
  "cstream_write_store cs buffer nbytes =
     (if \<not> (c_end cs div 8 + nbytes \<le> c_size cs) then Inl AssertionFailed
      else if \<not> (c_end cs div 8 + nbytes \<le> length (c_data cs)) then Inl UndefinedBehaviour
      else if \<not> (nbytes \<le> length buffer) then Inl UndefinedBehaviour
      else Inr (0, cs\<lparr> c_data := take (c_end cs div 8) (c_data cs) @ take nbytes buffer
                                   @ drop (c_end cs div 8 + nbytes) (c_data cs),
                        c_end := c_end cs + nbytes * 8,
                        c_processed_bits := (c_processed_bits cs + nbytes * 8) mod 2 ^ 64 \<rparr>))"

text \<open>\<open>cstream_write cs buffer nbytes\<close> returns the \<open>int\<close> result and the stream.\<close>
definition cstream_write ::
  "lz77_cstream \<Rightarrow> byte list \<Rightarrow> nat \<Rightarrow> failure + (int \<times> lz77_cstream)" where
  "cstream_write cs buffer nbytes =
     (if c_is_input cs \<noteq> 0 then Inl AssertionFailed
      else if \<not> (c_end cs mod 8 = 0) then Inl AssertionFailed
      else (case cstream_write_grow cs nbytes of
              Inl e \<Rightarrow> Inl e
            | Inr None \<Rightarrow> Inr (- 1, cs)
            | Inr (Some cs1) \<Rightarrow> cstream_write_store cs1 buffer nbytes))"

text \<open>
  The block of \<open>cstream_write_bits\<close> that empties the cache when the new bits do not
  fit: it returns \<open>result\<close> and the stream.
\<close>
definition cstream_write_bits_flush ::
  "lz77_cstream \<Rightarrow> nat \<Rightarrow> failure + (int \<times> lz77_cstream)" where
  "cstream_write_bits_flush cs nbits =
     (if c_cached_nbits cs + nbits > 64 then
        (if \<not> (c_cached_nbits cs div 8 > 1) then Inl AssertionFailed
         else (case cstream_write cs (be64_bytes (c_cached cs)) (c_cached_nbits cs div 8) of
                 Inl e \<Rightarrow> Inl e
               | Inr (r, cs1) \<Rightarrow>
                   if \<not> (c_cached_nbits cs1 div 8 * 8 - 1 < 64) then Inl UndefinedBehaviour
                   else Inr (r, cs1\<lparr> c_cached :=
                                      push_bit (c_cached_nbits cs1 div 8 * 8 - 1)
                                        (push_bit 1 (c_cached cs1) mod 2 ^ 64) mod 2 ^ 64,
                                    c_cached_nbits := c_cached_nbits cs1 mod 8 \<rparr>)))
      else Inr (0, cs))"

text \<open>
  The rest of \<open>cstream_write_bits\<close>: the bits \<open>startbit, ..., startbit + nbits - 1\<close> of
  the 64-bit value \<open>reg\<close> go to the cache.  A shift of a 64-bit value by 64 or more, and
  \<open>1 << nbits\<close> in \<open>int\<close> for \<open>nbits \<ge> 31\<close>, are undefined.
\<close>
definition cstream_write_bits_cache ::
  "lz77_cstream \<Rightarrow> nat \<Rightarrow> nat \<Rightarrow> nat \<Rightarrow> failure + lz77_cstream" where
  "cstream_write_bits_cache cs reg startbit nbits =
     (if \<not> (64 - startbit - nbits < 64) then Inl UndefinedBehaviour
      else if \<not> (nbits < 31) then Inl UndefinedBehaviour
      else if \<not> (nbits + c_cached_nbits cs \<le> 64 \<and> 64 - nbits - c_cached_nbits cs < 64)
           then Inl UndefinedBehaviour
      else
        let value1 = drop_bit (64 - startbit - nbits) (reg mod 2 ^ 64);
            value2 = value1 AND (2 ^ nbits - 1);
            value3 = push_bit (64 - nbits - c_cached_nbits cs) value2 mod 2 ^ 64
        in Inr (cs\<lparr> c_cached := c_cached cs OR value3,
                       c_cached_nbits := (c_cached_nbits cs + nbits) mod 256 \<rparr>))"

text \<open>\<open>cstream_write_bits cs reg startbit nbits\<close>, with \<open>reg\<close> the value \<open>*reg\<close>.\<close>
definition cstream_write_bits ::
  "lz77_cstream \<Rightarrow> nat \<Rightarrow> nat \<Rightarrow> nat \<Rightarrow> failure + (int \<times> lz77_cstream)" where
  "cstream_write_bits cs reg startbit nbits =
     (if \<not> (startbit + nbits \<le> 64) then Inl AssertionFailed
      else if c_is_input cs \<noteq> 0 then Inl AssertionFailed
      else (case cstream_write_bits_flush cs nbits of
              Inl e \<Rightarrow> Inl e
            | Inr (result, cs2) \<Rightarrow>
                (case cstream_write_bits_cache cs2 reg startbit nbits of
                   Inl e \<Rightarrow> Inl e
                 | Inr cs3 \<Rightarrow> Inr (result, cs3))))"

text \<open>For a memory-backed stream: write out the cached bits, rounded up to whole bytes.
  The result of that \<open>cstream_write\<close> is not looked at.\<close>
definition cstream_close :: "lz77_cstream \<Rightarrow> failure + (int \<times> lz77_cstream)" where
  "cstream_close cs =
     (let written =
        (if c_cached_nbits cs > 0 then
           (case cstream_write cs (be64_bytes (c_cached cs)) ((c_cached_nbits cs + 7) div 8) of
              Inl e \<Rightarrow> Inl e
            | Inr (_, cs1) \<Rightarrow> Inr (cs1\<lparr> c_cached_nbits := 0 \<rparr>))
         else Inr cs)
      in (case written of
           Inl e \<Rightarrow> Inl e
         | Inr cs2 \<Rightarrow> if c_fd cs2 \<ge> 0 then Inl DescriptorIO else Inr (0, cs2)))"

definition lz77_cstream_get_processed_bits :: "lz77_cstream \<Rightarrow> nat" where
  "lz77_cstream_get_processed_bits cs = (c_processed_bits cs + c_cached_nbits cs) mod 2 ^ 64"

subsection \<open>cstream.c: opening a compressed stream\<close>

text \<open>\<open>cstream_header\<close> as the 12 bytes of the object: \<open>magic[4]\<close>, \<open>version\<close>,
  \<open>reserved[3]\<close>, \<open>window_size\<close>, \<open>lookahead_size\<close>.\<close>

definition header_magic :: "byte list" where
  "header_magic = [0x4C, 0x5A, 0x37, 0x37]"

definition cstream_open :: "nat \<Rightarrow> lz77_cstream \<Rightarrow> (failure + (int \<times> lz77_cstream)) option" where
  "cstream_open fuel cs =
     (if \<not> (c_pos cs = 0) then Some (Inl AssertionFailed)
      else if \<not> (c_is_input cs = 0 \<or> (c_window_maxsize cs = 0 \<and> c_lookahead_maxsize cs = 0))
           then Some (Inl AssertionFailed)
      else if c_is_input cs \<noteq> 0 then
        (case cstream_read fuel cs (replicate 12 0) 0 (12 * 8) of
           None \<Rightarrow> None
         | Some (Inl e) \<Rightarrow> Some (Inl e)
         | Some (Inr (n, cs1, header)) \<Rightarrow>
             if n \<noteq> 12 * 8 then Some (Inr (- 1, cs1))
             else if take 4 header \<noteq> header_magic then Some (Inr (- 1, cs1))
             else if header ! 4 \<noteq> LZ77PPM_VERSION then Some (Inr (- 1, cs1))
             else
               let cs2 = cs1\<lparr> c_window_maxsize := be16_value (take 2 (drop 8 header)) \<rparr>
               in if c_window_maxsize cs2 < LZ77_MIN_WINDOW_SIZE then Some (Inr (- 1, cs2))
                  else
                    let cs3 = cs2\<lparr> c_lookahead_maxsize := be16_value (take 2 (drop 10 header)) \<rparr>
                    in if c_lookahead_maxsize cs3 < LZ77_MIN_LOOKAHEAD_SIZE then Some (Inr (- 1, cs3))
                       else if c_lookahead_maxsize cs3 > c_window_maxsize cs3
                       then Some (Inr (- 1, cs3))
                       else Some (Inr (0, cs3)))
      else
        let header = header_magic @ [LZ77PPM_VERSION] @ [0, 0, 0]
                     @ be16_bytes (c_window_maxsize cs) @ be16_bytes (c_lookahead_maxsize cs)
        in (case cstream_write cs header 12 of
             Inl e \<Rightarrow> Some (Inl e)
           | Inr (r, cs1) \<Rightarrow> if r < 0 then Some (Inr (- 1, cs1)) else Some (Inr (0, cs1))))"

subsection \<open>tree.c: the binary search tree over the window\<close>

text \<open>
  The tree is the array \<open>ustream->tree\<close> of \<open>window_maxsize + 1\<close> nodes; an index
  outside the array is an access outside the allocated object.
\<close>

definition lz77_tree_contract_node ::
  "lz77_tree list \<Rightarrow> nat \<Rightarrow> nat \<Rightarrow> failure + lz77_tree list" where
  "lz77_tree_contract_node tree old new =
     (if \<not> (old \<noteq> UNUSED) then Inl AssertionFailed
      else if \<not> (new \<noteq> old) then Inl AssertionFailed
      else if \<not> old < length tree then Inl UndefinedBehaviour
      else
        let p = parent (tree ! old)
        in if \<not> p < length tree then Inl UndefinedBehaviour
           else if \<not> (larger (tree ! p) = old \<or> smaller (tree ! p) = old) then Inl AssertionFailed
           else if \<not> (larger (tree ! old) = new \<or> smaller (tree ! old) = new)
                then Inl AssertionFailed
           else if \<not> (larger (tree ! old) = UNUSED \<or> smaller (tree ! old) = UNUSED)
                then Inl AssertionFailed
           else if new \<noteq> UNUSED \<and> \<not> new < length tree then Inl UndefinedBehaviour
           else if \<not> (new = UNUSED \<or> parent (tree ! new) = old) then Inl AssertionFailed
           else
             let t1 = (if new \<noteq> UNUSED then tree[new := (tree ! new)\<lparr> parent := p \<rparr>] else tree);
                 t2 = (if larger (t1 ! p) = old
                       then t1[p := (t1 ! p)\<lparr> larger := new \<rparr>]
                       else t1[p := (t1 ! p)\<lparr> smaller := new \<rparr>])
             in Inr (t2[old := (t2 ! old)\<lparr> parent := UNUSED \<rparr>]))"

definition lz77_tree_replace_node ::
  "lz77_tree list \<Rightarrow> nat \<Rightarrow> nat \<Rightarrow> failure + lz77_tree list" where
  "lz77_tree_replace_node tree old new =
     (if \<not> (old \<noteq> UNUSED) then Inl AssertionFailed
      else if \<not> (new \<noteq> UNUSED) then Inl AssertionFailed
      else if \<not> (new \<noteq> old) then Inl AssertionFailed
      else if \<not> new < length tree then Inl UndefinedBehaviour
      else if \<not> (parent (tree ! new) = UNUSED) then Inl AssertionFailed
      else if \<not> old < length tree then Inl UndefinedBehaviour
      else
        let p = parent (tree ! old)
        in if p \<noteq> UNUSED \<and> \<not> p < length tree then Inl UndefinedBehaviour
           else
             let t1 = (if p = UNUSED then tree
                       else if smaller (tree ! p) = old
                       then tree[p := (tree ! p)\<lparr> smaller := new \<rparr>]
                       else tree[p := (tree ! p)\<lparr> larger := new \<rparr>]);
                 t2 = t1[new := t1 ! old];
                 s = smaller (t2 ! new)
             in if s \<noteq> UNUSED \<and> \<not> s < length tree then Inl UndefinedBehaviour
                else
                  let t3 = (if s \<noteq> UNUSED then t2[s := (t2 ! s)\<lparr> parent := new \<rparr>] else t2);
                      l = larger (t3 ! new)
                  in if l \<noteq> UNUSED \<and> \<not> l < length tree then Inl UndefinedBehaviour
                     else
                       let t4 = (if l \<noteq> UNUSED then t3[l := (t3 ! l)\<lparr> parent := new \<rparr>] else t3)
                       in Inr (t4[old := (t4 ! old)\<lparr> parent := UNUSED \<rparr>]))"

text \<open>The loop of \<open>lz77_tree_find_next_node\<close>: follow the \<open>larger\<close> links from \<open>next\<close>.\<close>
function find_next_loop :: "nat \<Rightarrow> lz77_tree list \<Rightarrow> nat \<Rightarrow> (failure + nat) option" where
  "find_next_loop fuel tree next =
     (if fuel = 0 then None
      else if \<not> next < length tree then Some (Inl UndefinedBehaviour)
      else if larger (tree ! next) \<noteq> UNUSED then find_next_loop (fuel - 1) tree (larger (tree ! next))
      else Some (Inr next))"
  by pat_completeness auto
termination
  by (relation "measure (\<lambda>(fuel, tree, next). fuel)") auto

declare find_next_loop.simps [simp del]

definition lz77_tree_find_next_node ::
  "nat \<Rightarrow> lz77_tree list \<Rightarrow> nat \<Rightarrow> (failure + nat) option" where
  "lz77_tree_find_next_node fuel tree index =
     (if \<not> (index \<noteq> UNUSED) then Some (Inl AssertionFailed)
      else if \<not> index < length tree then Some (Inl UndefinedBehaviour)
      else find_next_loop fuel tree (smaller (tree ! index)))"

text \<open>\<open>lz77_tree_delete_node\<close> calls itself on the replacement; \<open>fuel\<close> bounds the depth
  of the recursion and the loop of \<open>lz77_tree_find_next_node\<close>.\<close>
function lz77_tree_delete_node ::
  "nat \<Rightarrow> lz77_tree list \<Rightarrow> nat \<Rightarrow> (failure + lz77_tree list) option" where
  "lz77_tree_delete_node fuel tree index =
     (if fuel = 0 then None
      else if \<not> (index \<noteq> UNUSED) then Some (Inl AssertionFailed)
      else if \<not> index < length tree then Some (Inl UndefinedBehaviour)
      else if parent (tree ! index) = UNUSED then Some (Inr tree)
      else if smaller (tree ! index) \<noteq> UNUSED \<and> larger (tree ! index) \<noteq> UNUSED then
        (case lz77_tree_find_next_node fuel tree index of
           None \<Rightarrow> None
         | Some (Inl e) \<Rightarrow> Some (Inl e)
         | Some (Inr replacement) \<Rightarrow>
             (case lz77_tree_delete_node (fuel - 1) tree replacement of
                None \<Rightarrow> None
              | Some (Inl e) \<Rightarrow> Some (Inl e)
              | Some (Inr t1) \<Rightarrow> Some (lz77_tree_replace_node t1 index replacement)))
      else if smaller (tree ! index) \<noteq> UNUSED
      then Some (lz77_tree_contract_node tree index (smaller (tree ! index)))
      else Some (lz77_tree_contract_node tree index (larger (tree ! index))))"
  by pat_completeness auto
termination
  by (relation "measure (\<lambda>(fuel, tree, index). fuel)") auto

declare lz77_tree_delete_node.simps [simp del]

text \<open>
  The inner loop of \<open>lz77_find_and_add\<close>: compares \<open>lookahead[i]\<close> with \<open>window[k + i]\<close>
  and returns the final \<open>i\<close> and \<open>delta\<close>.
\<close>
function match_loop ::
  "lz77_ustream \<Rightarrow> nat \<Rightarrow> nat \<Rightarrow> int \<Rightarrow> failure + (nat \<times> int)" where
  "match_loop us k i delta =
     (if i < u_lookahead_currsize us then
        (if \<not> u_lookahead us + i < length (u_data us) then Inl UndefinedBehaviour
         else if \<not> u_window us + k + i < length (u_data us) then Inl UndefinedBehaviour
         else
           let delta' = int (u_data us ! (u_lookahead us + i))
                        - int (u_data us ! (u_window us + k + i))
           in if delta' \<noteq> 0 then Inr (i, delta') else match_loop us k (i + 1) delta')
      else Inr (i, delta))"
  by pat_completeness auto
termination
  by (relation "measure (\<lambda>(us, k, i, delta). u_lookahead_currsize us - i)") auto

declare match_loop.simps [simp del]

text \<open>
  The outer loop of \<open>lz77_find_and_add\<close>, one round per visited node \<open>test\<close>.  It returns
  \<open>longest\<close>, \<open>*offset\<close> and the stream with its tree updated.
\<close>
function find_and_add_loop ::
  "nat \<Rightarrow> lz77_ustream \<Rightarrow> nat \<Rightarrow> nat \<Rightarrow> nat \<Rightarrow> nat \<Rightarrow> nat
   \<Rightarrow> (failure + (nat \<times> nat \<times> lz77_ustream)) option" where
  "find_and_add_loop fuel us cur begin test longest offset =
     (if fuel = 0 then None
      else
        let k = (if int test - int begin < 0
                 then nat (int test - int begin + int (u_window_maxsize us))
                 else test - begin)
        in (case match_loop us k 0 0 of
             Inl e \<Rightarrow> Some (Inl e)
           | Inr (i, delta) \<Rightarrow>
               let offset' = (if i > longest then k mod 65536 else offset);
                   longest' = (if i > longest then i else longest)
               in if i > longest \<and> longest' = u_lookahead_currsize us then
                    (if test \<noteq> cur then
                       (case lz77_tree_delete_node fuel (u_tree us) cur of
                          None \<Rightarrow> None
                        | Some (Inl e) \<Rightarrow> Some (Inl e)
                        | Some (Inr t1) \<Rightarrow>
                            (case lz77_tree_replace_node t1 test cur of
                               Inl e \<Rightarrow> Some (Inl e)
                             | Inr t2 \<Rightarrow> Some (Inr (longest', offset', us\<lparr> u_tree := t2 \<rparr>))))
                     else Some (Inr (longest', offset', us)))
                  else if \<not> (delta \<noteq> 0) then Some (Inl AssertionFailed)
                  else if \<not> test < length (u_tree us) then Some (Inl UndefinedBehaviour)
                  else
                    let child = (\<lambda>t. if delta > 0 then larger (t ! test) else smaller (t ! test))
                    in if child (u_tree us) = UNUSED then
                         (if test = cur then Some (Inr (longest', offset', us))
                          else if \<not> cur < length (u_tree us) then Some (Inl UndefinedBehaviour)
                          else
                            (case (if parent (u_tree us ! cur) \<noteq> UNUSED
                                  then lz77_tree_delete_node fuel (u_tree us) cur
                                  else Some (Inr (u_tree us))) of
                              None \<Rightarrow> None
                            | Some (Inl e) \<Rightarrow> Some (Inl e)
                            | Some (Inr t1) \<Rightarrow>
                                if child t1 = UNUSED then
                                  (let t2 = (if delta > 0
                                             then t1[test := (t1 ! test)\<lparr> larger := cur \<rparr>]
                                             else t1[test := (t1 ! test)\<lparr> smaller := cur \<rparr>])
                                   in Some (Inr (longest', offset',
                                        us\<lparr> u_tree := t2[cur := \<lparr> parent = test, smaller = UNUSED,
                                                                    larger = UNUSED \<rparr>] \<rparr>)))
                                else find_and_add_loop (fuel - 1) (us\<lparr> u_tree := t1 \<rparr>) cur begin
                                       (child t1) longest' offset'))
                       else find_and_add_loop (fuel - 1) us cur begin (child (u_tree us))
                              longest' offset'))"
  by pat_completeness auto
termination
  by (relation "measure (\<lambda>(fuel, us, cur, begin, test, longest, offset). fuel)") auto

declare find_and_add_loop.simps [simp del]

text \<open>\<open>lz77_find_and_add fuel us cur offset\<close>, with \<open>offset\<close> the value of \<open>*offset\<close> on
  entry.\<close>
definition lz77_find_and_add ::
  "nat \<Rightarrow> lz77_ustream \<Rightarrow> nat \<Rightarrow> nat \<Rightarrow> (failure + (nat \<times> nat \<times> lz77_ustream)) option" where
  "lz77_find_and_add fuel us cur offset =
     (if \<not> cur < u_window_maxsize us then Some (Inl AssertionFailed)
      else if \<not> u_window_maxsize us < length (u_tree us) then Some (Inl UndefinedBehaviour)
      else find_and_add_loop fuel us cur (u_window us mod u_window_maxsize us)
             (larger (u_tree us ! u_window_maxsize us)) 0 offset)"

subsection \<open>ustream.c: finding the next token (compression)\<close>

text \<open>
  The \<open>for\<close> loop of \<open>ustream_find_and_advance\<close> that slides the window and the
  look-ahead buffer over the \<open>count\<close> consumed bytes.
\<close>
function advance_loop ::
  "nat \<Rightarrow> lz77_ustream \<Rightarrow> nat \<Rightarrow> nat \<Rightarrow> (failure + lz77_ustream) option" where
  "advance_loop fuel us count i =
     (if i < count then
        (if \<not> 0 < u_window_maxsize us then Some (Inl UndefinedBehaviour)
         else
           (case (if int i < int count - 1
                 then (case lz77_tree_delete_node fuel (u_tree us)
                              ((u_lookahead us + 1) mod u_window_maxsize us) of
                         None \<Rightarrow> None
                       | Some (Inl e) \<Rightarrow> Some (Inl e)
                       | Some (Inr t) \<Rightarrow> Some (Inr (us\<lparr> u_tree := t \<rparr>)))
                 else Some (Inr us)) of
             None \<Rightarrow> None
           | Some (Inl e) \<Rightarrow> Some (Inl e)
           | Some (Inr us1) \<Rightarrow>
               let us2 = (if u_window_currsize us1 = u_window_maxsize us1
                          then us1\<lparr> u_window := u_window us1 + 1 \<rparr>
                          else us1\<lparr> u_window_currsize := (u_window_currsize us1 + 1) mod 65536 \<rparr>)
               in if \<not> (u_window_currsize us2 \<le> u_window_maxsize us2) then Some (Inl AssertionFailed)
                  else if \<not> (u_window us2 + u_window_currsize us2 \<le> u_size us2)
                       then Some (Inl AssertionFailed)
                  else
                    let us3 = us2\<lparr> u_lookahead := u_lookahead us2 + 1 \<rparr>;
                        data_end = u_end us3;
                        lkah_end = u_lookahead us3 + u_lookahead_currsize us3
                    in (case (if lkah_end > data_end then
                               (if \<not> (lkah_end = data_end + 1) then Inl AssertionFailed
                                else
                                  let eof = u_lookahead_currsize us3 < u_lookahead_maxsize us3;
                                      canmove = u_window us3 > 0
                                  in if u_fd us3 \<ge> 0 \<and> \<not> eof \<and> canmove then Inl DescriptorIO
                                     else
                                       let us4 = us3\<lparr> u_lookahead_currsize :=
                                                   (u_lookahead_currsize us3 + 65535) mod 65536 \<rparr>
                                       in if \<not> (u_lookahead_currsize us4 \<le> u_lookahead_maxsize us4)
                                          then Inl AssertionFailed else Inr us4)
                             else Inr us3) of
                         Inl e \<Rightarrow> Some (Inl e)
                       | Inr us5 \<Rightarrow>
                           if int i < int count - 1 then
                             (case lz77_find_and_add fuel us5
                                     (u_lookahead us5 mod u_window_maxsize us5) 0 of
                                None \<Rightarrow> None
                              | Some (Inl e) \<Rightarrow> Some (Inl e)
                              | Some (Inr (_, _, us6)) \<Rightarrow> advance_loop fuel us6 count (i + 1))
                           else advance_loop fuel us5 count (i + 1))))
      else Some (Inr us))"
  by pat_completeness auto
termination
  by (relation "measure (\<lambda>(fuel, us, count, i). count - i)") auto

declare advance_loop.simps [simp del]

text \<open>
  \<open>ustream_find_and_advance fuel us offset len next\<close> returns the \<open>int\<close> result, the
  values of \<open>*offset\<close>, \<open>*length\<close> and \<open>*next\<close> (their values on entry are the
  arguments) and the stream.
\<close>
definition ustream_find_and_advance ::
  "nat \<Rightarrow> lz77_ustream \<Rightarrow> nat \<Rightarrow> nat \<Rightarrow> byte
   \<Rightarrow> (failure + (int \<times> nat \<times> nat \<times> byte \<times> lz77_ustream)) option" where
  "ustream_find_and_advance fuel us offset len next =
     (if u_lookahead_currsize us = 0 then Some (Inr (0, offset, len, next, us))
      else
        (case (if u_window_currsize us = 0 then
                (let w = u_window_maxsize us; t = u_tree us
                 in if \<not> w < length t then Some (Inl UndefinedBehaviour)
                    else
                      let t1 = t[w := (t ! w)\<lparr> larger := 0 \<rparr>];
                          t2 = t1[0 := \<lparr> parent = w, smaller = UNUSED, larger = UNUSED \<rparr>];
                          t3 = fold (\<lambda>i t. t[i := \<lparr> parent = UNUSED, smaller = UNUSED,
                                                    larger = UNUSED \<rparr>]) [1..<w] t2
                      in Some (Inr (0, offset, us\<lparr> u_tree := t3 \<rparr>)))
              else if \<not> 0 < u_window_maxsize us then Some (Inl UndefinedBehaviour)
              else lz77_find_and_add fuel us (u_lookahead us mod u_window_maxsize us) offset) of
          None \<Rightarrow> None
        | Some (Inl e) \<Rightarrow> Some (Inl e)
        | Some (Inr (length1, offset1, us1)) \<Rightarrow>
            let can_encode = tinyhuff_can_encode (u_length_encoder us1) length1
            in if (length1 = 0 \<or> \<not> can_encode) \<and> \<not> u_lookahead us1 < length (u_data us1)
               then Some (Inl UndefinedBehaviour)
               else
                 let count = (if length1 = 0 \<or> \<not> can_encode then 1 else length1);
                     length2 = (if length1 = 0 \<or> \<not> can_encode then 0 else length1);
                     offset2 = (if length1 = 0 \<or> \<not> can_encode then 0 else offset1);
                     next2 = (if length1 = 0 \<or> \<not> can_encode
                              then u_data us1 ! u_lookahead us1 else next)
                 in if \<not> (count \<le> u_lookahead_currsize us1) then Some (Inl AssertionFailed)
                    else
                      (case advance_loop fuel us1 count 0 of
                        None \<Rightarrow> None
                      | Some (Inl e) \<Rightarrow> Some (Inl e)
                      | Some (Inr us2) \<Rightarrow>
                          Some (Inr (int count, offset2, length2, next2,
                                     us2\<lparr> u_processed_bytes :=
                                            (u_processed_bytes us2 + count) mod 2 ^ 64 \<rparr>)))))"

subsection \<open>ustream.c: appending a token (decompression)\<close>

text \<open>The byte-by-byte copy of \<open>ustream_save\<close>:
  \<open>data[end + i] = window[offset + i]\<close> for \<open>i = 0, ..., length - 1\<close>, with \<open>dst\<close> the
  position \<open>end\<close> and \<open>src\<close> the position of \<open>window[offset]\<close>.\<close>
function copy_loop :: "byte list \<Rightarrow> nat \<Rightarrow> nat \<Rightarrow> nat \<Rightarrow> nat \<Rightarrow> failure + byte list" where
  "copy_loop data dst src len i =
     (if i < len then
        (if \<not> src + i < length data then Inl UndefinedBehaviour
         else if \<not> dst + i < length data then Inl UndefinedBehaviour
         else copy_loop (data[dst + i := data ! (src + i)]) dst src len (i + 1))
      else Inr data)"
  by pat_completeness auto
termination
  by (relation "measure (\<lambda>(data, dst, src, len, i). len - i)") auto

declare copy_loop.simps [simp del]

text \<open>
  The block of \<open>ustream_save\<close> that makes room for \<open>count\<close> more bytes; \<open>Inr None\<close>
  stands for \<open>errno = ENOMEM; return -1\<close>.  The reallocated buffer keeps its bytes and is
  filled up with zero bytes.
\<close>
definition ustream_save_grow :: "lz77_ustream \<Rightarrow> nat \<Rightarrow> failure + lz77_ustream option" where
  "ustream_save_grow us count =
     (if u_size us < (u_end us + count) mod 2 ^ 32 then
        (if u_fd us \<ge> 0 then Inl DescriptorIO
         else if u_can_realloc us = 0 then Inr None
         else
           let new_size0 = (u_end us + count) mod 2 ^ 32;
               new_size1 = (if new_size0 < 1024 then 1024 else new_size0);
               new_size = (if new_size1 * 10 < u_size us * 11
                           then u_size us * 11 div 10 else new_size1)
           in Inr (Some (us\<lparr> u_size := new_size,
                               u_data := take new_size
                                 (u_data us @ replicate (new_size - length (u_data us)) 0) \<rparr>)))
      else Inr (Some us))"

text \<open>
  The block of \<open>ustream_save\<close> that writes the symbol or the phrase at \<open>data + end\<close>: it
  returns the buffer and \<open>length\<close> (1 for a symbol).  The middle branch is the \<open>memcpy\<close>,
  the last one the byte-by-byte copy.
\<close>
definition ustream_save_copy ::
  "lz77_ustream \<Rightarrow> nat \<Rightarrow> nat \<Rightarrow> byte \<Rightarrow> failure + (byte list \<times> nat)" where
  "ustream_save_copy us offset len next =
     (if len = 0 then
        (if \<not> u_end us < length (u_data us) then Inl UndefinedBehaviour
         else Inr ((u_data us)[u_end us := next], 1))
      else if u_window us + offset + len \<le> u_end us then
        (if \<not> u_end us + len \<le> length (u_data us) then Inl UndefinedBehaviour
         else Inr (take (u_end us) (u_data us)
                   @ take len (drop (u_window us + offset) (u_data us))
                   @ drop (u_end us + len) (u_data us), len))
      else
        (case copy_loop (u_data us) (u_end us) (u_window us + offset) len 0 of
           Inl e \<Rightarrow> Inl e
         | Inr d \<Rightarrow> Inr (d, len)))"

text \<open>The block of \<open>ustream_save\<close> that grows the window up to its maximum and then
  shifts it.\<close>
definition ustream_save_slide :: "lz77_ustream \<Rightarrow> nat \<Rightarrow> lz77_ustream" where
  "ustream_save_slide us length1 =
     (if u_window_currsize us = u_window_maxsize us
      then us\<lparr> u_window := u_window us + length1 \<rparr>
      else
        let max_increment = int (u_window_maxsize us) - int (u_window_currsize us)
        in if int length1 \<le> max_increment
           then us\<lparr> u_window_currsize := (u_window_currsize us + length1) mod 65536 \<rparr>
           else us\<lparr> u_window_currsize := u_window_maxsize us,
                    u_window := u_window us + nat (int length1 - max_increment) \<rparr>)"

text \<open>\<open>ustream_save us offset len next\<close> returns the \<open>int\<close> result and the stream.\<close>
definition ustream_save ::
  "lz77_ustream \<Rightarrow> nat \<Rightarrow> nat \<Rightarrow> byte \<Rightarrow> failure + (int \<times> lz77_ustream)" where
  "ustream_save us offset len next =
     (if \<not> (len = 0 \<or> offset \<le> u_window_currsize us) then Inl AssertionFailed
      else if \<not> (u_window us + u_window_currsize us = u_end us) then Inl AssertionFailed
      else (case ustream_save_grow us (if len = 0 then 1 else len) of
              Inl e \<Rightarrow> Inl e
            | Inr None \<Rightarrow> Inr (- 1, us)
            | Inr (Some us1) \<Rightarrow>
                if \<not> (len = 0 \<or> u_window us1 + offset < u_end us1) then Inl AssertionFailed
                else (case ustream_save_copy us1 offset len next of
                        Inl e \<Rightarrow> Inl e
                      | Inr (d, length1) \<Rightarrow>
                          let us3 = ustream_save_slide (us1\<lparr> u_data := d \<rparr>) length1
                          in if \<not> (u_window_currsize us3 \<le> u_window_maxsize us3)
                             then Inl AssertionFailed
                             else if \<not> (u_window us3 + u_window_currsize us3 \<le> u_size us3)
                             then Inl AssertionFailed
                             else Inr (0, us3\<lparr> u_end := (u_end us3 + length1) mod 2 ^ 32,
                                                u_processed_bytes :=
                                                  (u_processed_bytes us3 + length1) mod 2 ^ 64 \<rparr>))))"

text \<open>Nothing is flushed for a memory-backed stream.\<close>
definition ustream_close :: "lz77_ustream \<Rightarrow> failure + (int \<times> lz77_ustream)" where
  "ustream_close us = (if u_fd us \<ge> 0 then Inl DescriptorIO else Inr (0, us))"

subsection \<open>lz77.c: compression and decompression\<close>

text \<open>
  The \<open>while\<close> loop of \<open>lz77_compress\<close>.  It returns \<open>- 1\<close> when the function returns
  from inside the loop, and \<open>0\<close> when the loop is left.  No progress callback is
  installed (\<open>report_progress\<close> is \<open>NULL\<close>).
\<close>
function compress_loop ::
  "nat \<Rightarrow> lz77_ustream \<Rightarrow> lz77_cstream \<Rightarrow> nat \<Rightarrow> nat \<Rightarrow> byte
   \<Rightarrow> (failure + (int \<times> lz77_ustream \<times> lz77_cstream)) option" where
  "compress_loop fuel us cs offset len next =
     (if fuel = 0 then None
      else
        (case ustream_find_and_advance fuel us offset len next of
          None \<Rightarrow> None
        | Some (Inl e) \<Rightarrow> Some (Inl e)
        | Some (Inr (r, offset1, length1, next1, us1)) \<Rightarrow>
            if r > 0 then
              (let winoff_bits = u_window_nbits us1
               in (case (if length1 \<noteq> 0 then
                          (case tinyhuff_encode (u_length_encoder us1) length1 of
                             Inl e \<Rightarrow> Inl e
                           | Inr (tb, code) \<Rightarrow>
                               let token1 = (push_bit winoff_bits 1 OR offset1) mod 2 ^ 64;
                                   token2 = (push_bit tb token1 OR code) mod 2 ^ 64
                               in Inr (token2, (LZ77_TYPE_BITS + winoff_bits + tb) mod 65536, code))
                        else Inr ((push_bit LZ77_NEXT_BITS 0 OR next1) mod 2 ^ 64,
                                  LZ77_SYMBOL_BITS, length1)) of
                    Inl e \<Rightarrow> Some (Inl e)
                  | Inr (token, tbits, length2) \<Rightarrow>
                      let startbit = nat ((64 - int tbits) mod 65536)
                      in (case cstream_write_bits cs token startbit tbits of
                           Inl e \<Rightarrow> Some (Inl e)
                         | Inr (w, cs1) \<Rightarrow>
                             if w < 0 then Some (Inr (- 1, us1, cs1))
                             else compress_loop (fuel - 1) us1 cs1 offset1 length2 next1)))
            else Some (Inr (0, us1, cs))))"
  by pat_completeness auto
termination
  by (relation "measure (\<lambda>(fuel, us, cs, offset, len, next). fuel)") auto

declare compress_loop.simps [simp del]

text \<open>
  \<open>lz77_compress fuel original compressed\<close> returns the \<open>int64_t\<close> result and the two
  streams.  The local variables \<open>offset\<close>, \<open>length\<close> and \<open>next\<close> start at 0.
\<close>
definition lz77_compress ::
  "nat \<Rightarrow> lz77_ustream \<Rightarrow> lz77_cstream
   \<Rightarrow> (failure + (int \<times> lz77_ustream \<times> lz77_cstream)) option" where
  "lz77_compress fuel original compressed =
     (case ustream_open original None of
        Inl e \<Rightarrow> Some (Inl e)
      | Inr (r1, us) \<Rightarrow>
          if r1 < 0 then Some (Inr (- 1, us, compressed))
          else
            (case cstream_open fuel compressed of
              None \<Rightarrow> None
            | Some (Inl e) \<Rightarrow> Some (Inl e)
            | Some (Inr (r2, cs)) \<Rightarrow>
                if r2 < 0 then Some (Inr (- 1, us, cs))
                else
                  (case compress_loop fuel us cs 0 0 0 of
                    None \<Rightarrow> None
                  | Some (Inl e) \<Rightarrow> Some (Inl e)
                  | Some (Inr (r3, us1, cs1)) \<Rightarrow>
                      if r3 < 0 then Some (Inr (- 1, us1, cs1))
                      else
                        let winoff_bits = u_window_nbits us1
                        in (case tinyhuff_encode (u_length_encoder us1) 0 of
                             Inl e \<Rightarrow> Some (Inl e)
                           | Inr (tb, code) \<Rightarrow>
                               let token = (push_bit tb (push_bit winoff_bits 1) OR code) mod 2 ^ 64;
                                   tbits = (LZ77_TYPE_BITS + winoff_bits + tb) mod 65536;
                                   startbit = nat ((64 - int tbits) mod 2 ^ 32)
                               in (case cstream_write_bits cs1 token (startbit mod 65536) tbits of
                                    Inl e \<Rightarrow> Some (Inl e)
                                  | Inr (w, cs2) \<Rightarrow>
                                      if w < 0 then Some (Inr (- 1, us1, cs2))
                                      else
                                        (case ustream_close us1 of
                                          Inl e \<Rightarrow> Some (Inl e)
                                        | Inr (_, us2) \<Rightarrow>
                                            (case cstream_close cs2 of
                                               Inl e \<Rightarrow> Some (Inl e)
                                             | Inr (_, cs3) \<Rightarrow>
                                                 Some (Inr (int ((lz77_cstream_get_processed_bits cs3
                                                                  + 7) mod 2 ^ 64 div 8),
                                                            us2, cs3)))))))))"

text \<open>
  The inner loop of \<open>lz77_decompress\<close>: peek 16 bits and decode a length, until the
  decoder consumes something.  It returns \<open>length\<close> and the stream.
\<close>
function decode_length_loop ::
  "nat \<Rightarrow> lz77_cstream \<Rightarrow> lz77_tinyhuff \<Rightarrow> nat \<Rightarrow> (failure + (nat \<times> lz77_cstream)) option" where
  "decode_length_loop fuel cs enc len =
     (if fuel = 0 then None
      else
        (case cstream_peek cs [0, 0] 0 16 of
          Inl e \<Rightarrow> Some (Inl e)
        | Inr (p, peek) \<Rightarrow>
            (case tinyhuff_decode enc (be16_value peek) p len of
               Inl e \<Rightarrow> Some (Inl e)
             | Inr (c, len1) \<Rightarrow>
                 if c > 0 then
                   (case cstream_consume cs c of
                      Inl e \<Rightarrow> Some (Inl e)
                    | Inr (_, cs1) \<Rightarrow> Some (Inr (len1, cs1)))
                 else decode_length_loop (fuel - 1) cs enc len1)))"
  by pat_completeness auto
termination
  by (relation "measure (\<lambda>(fuel, cs, enc, len). fuel)") auto

declare decode_length_loop.simps [simp del]

text \<open>
  The outer loop of \<open>lz77_decompress\<close>: \<open>- 1\<close> when the function returns from inside the
  loop, \<open>0\<close> when the loop is left at the terminating token.  \<open>int state\<close> is a four-byte
  object, zero if and only if all its bytes are.
\<close>
function decompress_loop ::
  "nat \<Rightarrow> lz77_cstream \<Rightarrow> lz77_ustream
   \<Rightarrow> (failure + (int \<times> lz77_cstream \<times> lz77_ustream)) option" where
  "decompress_loop fuel cs us =
     (if fuel = 0 then None
      else
        (case cstream_read fuel cs [0, 0, 0, 0] 0 LZ77_TYPE_BITS of
          None \<Rightarrow> None
        | Some (Inl e) \<Rightarrow> Some (Inl e)
        | Some (Inr (_, cs1, state)) \<Rightarrow>
            let winoff_bits = u_window_nbits us
            in (case (if state \<noteq> [0, 0, 0, 0] then
                       (case cstream_read fuel cs1 [0, 0] ((16 - winoff_bits) mod 65536)
                               winoff_bits of
                          None \<Rightarrow> None
                        | Some (Inl e) \<Rightarrow> Some (Inl e)
                        | Some (Inr (_, cs2, offset_bytes)) \<Rightarrow>
                            (case decode_length_loop fuel cs2 (u_length_encoder us) 0 of
                               None \<Rightarrow> None
                             | Some (Inl e) \<Rightarrow> Some (Inl e)
                             | Some (Inr (len, cs3)) \<Rightarrow>
                                 Some (Inr (len = 0, False, cs3, be16_value offset_bytes, len, 0))))
                     else
                       (case cstream_read fuel cs1 [0] 0 LZ77_NEXT_BITS of
                          None \<Rightarrow> None
                        | Some (Inl e) \<Rightarrow> Some (Inl e)
                        | Some (Inr (n, cs2, next_bytes)) \<Rightarrow>
                            Some (Inr (False, n \<noteq> LZ77_NEXT_BITS, cs2, 0, 0, next_bytes ! 0)))) of
                 None \<Rightarrow> None
               | Some (Inl e) \<Rightarrow> Some (Inl e)
               | Some (Inr (terminator, short_read, cs4, offset, len, next)) \<Rightarrow>
                   if terminator then Some (Inr (0, cs4, us))
                   else if short_read then Some (Inr (- 1, cs4, us))
                   else
                     (case ustream_save us offset len next of
                       Inl e \<Rightarrow> Some (Inl e)
                     | Inr (r, us1) \<Rightarrow>
                         if r < 0 then Some (Inr (- 1, cs4, us1))
                         else decompress_loop (fuel - 1) cs4 us1))))"
  by pat_completeness auto
termination
  by (relation "measure (\<lambda>(fuel, cs, us). fuel)") auto

declare decompress_loop.simps [simp del]

text \<open>\<open>lz77_decompress fuel compressed original\<close> returns the \<open>int64_t\<close> result and the
  two streams.\<close>
definition lz77_decompress ::
  "nat \<Rightarrow> lz77_cstream \<Rightarrow> lz77_ustream
   \<Rightarrow> (failure + (int \<times> lz77_cstream \<times> lz77_ustream)) option" where
  "lz77_decompress fuel compressed original =
     (case cstream_open fuel compressed of
        None \<Rightarrow> None
      | Some (Inl e) \<Rightarrow> Some (Inl e)
      | Some (Inr (r1, cs)) \<Rightarrow>
          if r1 < 0 then Some (Inr (- 1, cs, original))
          else
            (case ustream_open original (Some cs) of
              Inl e \<Rightarrow> Some (Inl e)
            | Inr (r2, us) \<Rightarrow>
                if r2 < 0 then Some (Inr (- 1, cs, us))
                else
                  (case decompress_loop fuel cs us of
                    None \<Rightarrow> None
                  | Some (Inl e) \<Rightarrow> Some (Inl e)
                  | Some (Inr (r3, cs1, us1)) \<Rightarrow>
                      if r3 < 0 then Some (Inr (- 1, cs1, us1))
                      else
                        (case cstream_close cs1 of
                          Inl e \<Rightarrow> Some (Inl e)
                        | Inr (_, cs2) \<Rightarrow>
                            (case ustream_close us1 of
                               Inl e \<Rightarrow> Some (Inl e)
                             | Inr (_, us2) \<Rightarrow>
                                 Some (Inr (int (u_processed_bytes us2), cs2, us2)))))))"

subsection \<open>The round-trip test of the library's test suite\<close>

text \<open>
  \<open>test_variable_length_i\<close> of the test program: compress \<open>original\<close> from memory into a
  buffer the library allocates, decompress that buffer into another one, and hand back
  what the test compares: \<open>compressed_size\<close>, the compressed bytes, \<open>decompressed_size\<close>
  and the decompressed bytes.  A creator that returns \<open>NULL\<close> trips the \<open>assert\<close> on the
  stream pointers in \<open>lz77_compress\<close> and \<open>lz77_decompress\<close>.
\<close>
definition test_variable_length_i ::
  "nat \<Rightarrow> byte list \<Rightarrow> nat \<Rightarrow> nat \<Rightarrow> (failure + (int \<times> byte list \<times> int \<times> byte list)) option" where
  "test_variable_length_i fuel original WINDOW_SIZE BUFFER_SIZE =
     (case lz77_ustream_from_memory (Some original) (length original) WINDOW_SIZE BUFFER_SIZE of
        Inl _ \<Rightarrow> Some (Inl AssertionFailed)
      | Inr original_stream \<Rightarrow>
          (case lz77_cstream_to_memory (Some original_stream) None 0 1 of
             Inl _ \<Rightarrow> Some (Inl AssertionFailed)
           | Inr compressed_stream \<Rightarrow>
               (case lz77_compress fuel original_stream compressed_stream of
                  None \<Rightarrow> None
                | Some (Inl e) \<Rightarrow> Some (Inl e)
                | Some (Inr (compressed_size, _, cs)) \<Rightarrow>
                    let compressed = take (nat compressed_size) (c_data cs)
                    in (case lz77_cstream_from_memory (Some compressed) (nat compressed_size) of
                         Inl _ \<Rightarrow> Some (Inl AssertionFailed)
                       | Inr compressed_stream2 \<Rightarrow>
                           (case lz77_ustream_to_memory (Some compressed_stream2) None 0 1 of
                              Inl _ \<Rightarrow> Some (Inl AssertionFailed)
                            | Inr decompressed_stream \<Rightarrow>
                                (case lz77_decompress fuel compressed_stream2 decompressed_stream of
                                   None \<Rightarrow> None
                                 | Some (Inl e) \<Rightarrow> Some (Inl e)
                                 | Some (Inr (decompressed_size, _, us)) \<Rightarrow>
                                     Some (Inr (compressed_size, compressed, decompressed_size,
                                                take (nat decompressed_size) (u_data us)))))))))"

subsection \<open>Observing the tree and a run of writes\<close>

text \<open>The slots of the subtree below node \<open>i\<close>, in order, each as often as it is
  linked; \<open>depth\<close> bounds the descent.\<close>
fun subtree_slots :: "nat \<Rightarrow> lz77_tree list \<Rightarrow> nat \<Rightarrow> nat list" where
  "subtree_slots 0 tree i = []"
| "subtree_slots (Suc depth) tree i =
     (if i = UNUSED \<or> \<not> i < length tree then []
      else subtree_slots depth tree (smaller (tree ! i)) @ [i]
           @ subtree_slots depth tree (larger (tree ! i)))"

text \<open>The slots in the tree of a stream: those below the right child of the root.\<close>
definition tree_slots :: "lz77_ustream \<Rightarrow> nat list" where
  "tree_slots us =
     subtree_slots (length (u_tree us)) (u_tree us) (larger (u_tree us ! u_window_maxsize us))"

text \<open>A run of \<open>cstream_write_bits\<close> calls \<open>(reg, startbit, nbits)\<close> that all return 0; the
  run stops, with \<open>None\<close>, at a call that does not.\<close>
fun write_bits_run :: "lz77_cstream \<Rightarrow> (nat \<times> nat \<times> nat) list \<Rightarrow> lz77_cstream option" where
  "write_bits_run cs [] = Some cs"
| "write_bits_run cs ((reg, startbit, nbits) # calls) =
     (case cstream_write_bits cs reg startbit nbits of
        Inr (r, cs') \<Rightarrow> if r = 0 then write_bits_run cs' calls else None
      | Inl _ \<Rightarrow> None)"

text \<open>The bits handed to a run of \<open>cstream_write_bits\<close> calls.\<close>
definition call_nbits :: "(nat \<times> nat \<times> nat) list \<Rightarrow> nat" where
  "call_nbits calls = sum_list (map (\<lambda>(reg, startbit, nbits). nbits) calls)"

text \<open>A writer over a caller's buffer of 12 bytes that must not be reallocated, the same
  after \<open>cstream_open\<close>, and seven symbol tokens of 9 bits.\<close>
abbreviation fixed_writer :: lz77_cstream where
  "fixed_writer \<equiv> projr (lz77_cstream_to_memory
       (Some (projr (lz77_ustream_from_memory (Some []) 0 4 2)))
       (Some [0, 0, 0, 0, 0, 0, 0, 0, 0, 0, 0, 0]) 12 0)"

abbreviation fixed_writer_opened :: lz77_cstream where
  "fixed_writer_opened \<equiv> snd (projr (the (cstream_open 1 fixed_writer)))"

abbreviation seven_symbols :: "(nat \<times> nat \<times> nat) list" where
  "seven_symbols \<equiv> [(65, 55, 9), (65, 55, 9), (65, 55, 9), (65, 55, 9), (65, 55, 9),
                     (65, 55, 9), (65, 55, 9)]"


text \<open>The 12 header bytes for a window size \<open>W\<close> and a look-ahead size \<open>L\<close>: the magic
  \<open>LZ77\<close>, the version, three reserved bytes, and the two sizes, high byte first.\<close>
definition header_bytes :: "nat \<Rightarrow> nat \<Rightarrow> byte list" where
  "header_bytes W L =
     [0x4C, 0x5A, 0x37, 0x37, 0x10, 0, 0, 0, W div 256 mod 256, W mod 256, L div 256 mod 256, L mod 256]"

section \<open>Properties\<close>

subsection \<open>The length code and its parameters\<close>

lemma floor_log2_bounds: "0 < n \<Longrightarrow> 2 ^ floor_log2 n \<le> n \<and> n < 2 ^ (floor_log2 n + 1)"
proof (induction n rule: floor_log2.induct)
  case (1 n)
  show ?case
  proof (cases "n < 2")
    case True
    with 1 show ?thesis by (simp add: floor_log2.simps[of n])
  next
    case False
    then have "0 < n div 2" by auto
    with 1 False have "2 ^ floor_log2 (n div 2) \<le> n div 2 \<and> n div 2 < 2 ^ (floor_log2 (n div 2) + 1)" by simp
    with False show ?thesis by (auto simp add: floor_log2.simps[of n])
  qed
qed

lemma number_of_bits_bit_width: "number_of_bits n = spec_bit_width n"
proof (induction n rule: number_of_bits.induct)
  case (1 v)
  show ?case
  proof (cases "v div 2 = 0")
    case True
    then have "max 1 v < 2" by auto
    then have "floor_log2 (max 1 v) = 0" by (subst floor_log2.simps) simp
    with True show ?thesis
      by (simp add: number_of_bits.simps[of v] spec_bit_width_def)
  next
    case False
    then have v: "2 \<le> v" by (cases "v < 2") auto
    then have m: "max 1 v = v" "max 1 (v div 2) = v div 2" by auto
    from False 1 have "number_of_bits (v div 2) = spec_bit_width (v div 2)" by simp
    with False v m show ?thesis
      by (simp add: number_of_bits.simps[of v] spec_bit_width_def floor_log2.simps[of v])
  qed
qed

lemma tinyhuff_init_fields:
  assumes "minv \<le> 3" "maxv \<le> 65535"
  shows "min_value (tinyhuff_init minv maxv) = minv"
    "max_value (tinyhuff_init minv maxv) = maxv"
    "max_encoded_value (tinyhuff_init minv maxv) = minv + 6"
    "diff_nbits (tinyhuff_init minv maxv) =
       (if maxv \<ge> minv + 6 then number_of_bits (maxv - (minv + 6)) else 0)"
  using assms
  by (auto simp add: tinyhuff_init_def ENCODING_TABLE_SIZE_def encoding_table_def Let_def
      nat_diff_distrib' nat_add_distrib add.commute)

lemma number_of_bits_le: "v < 2 ^ k \<Longrightarrow> 0 < k \<Longrightarrow> number_of_bits v \<le> k"
proof (induction v arbitrary: k rule: number_of_bits.induct)
  case (1 v)
  show ?case
  proof (cases "v div 2 = 0")
    case True
    with 1 show ?thesis by (simp add: number_of_bits.simps[of v])
  next
    case False
    then have "2 \<le> v" by (cases "v < 2") auto
    with 1(2,3) have "1 < k" by (cases "k = 1") auto
    then obtain j where k: "k = Suc j" "0 < j" by (cases k) auto
    with 1(2) have "v div 2 < 2 ^ j" by auto
    with 1(1)[OF False this k(2)] k False show ?thesis
      by (simp add: number_of_bits.simps[of v])
  qed
qed

lemma ustream_open_from_memory:
  assumes "4 \<le> W" "W \<le> 65535" "2 \<le> L"
  shows "\<exists>us0 us. lz77_ustream_from_memory (Some s) n W L = Inr us0
           \<and> ustream_open us0 None = Inr (0, us)
           \<and> u_length_encoder us = tinyhuff_init ((1 + number_of_bits (W - 1) + 2) div 9 + 1) L"
  using assms
  by (simp add: lz77_ustream_from_memory_def ustream_open_def lz77_tree_init_def
        malloc_tree_def LZ77_MIN_WINDOW_SIZE_def LZ77_MIN_LOOKAHEAD_SIZE_def Let_def
        LZ77_TYPE_BITS_def LZ77_TINYHUFF_MIN_CODE_BITS_def LZ77_SYMBOL_BITS_def LZ77_NEXT_BITS_def)

text \<open>
  Claim C5, amended.  For every valid \<open>(W, L)\<close>, opening an input stream sets the length
  encoder so that \<open>min_value = \<lfloor>(1 + wbits + 2) / 9\<rfloor> + 1\<close>, where \<open>wbits\<close> is the
  bit-width of \<open>W - 1\<close>, and \<open>max_encoded_value = min_value + 6\<close>; \<open>diff_nbits\<close> is the
  bit-width of \<open>L - max_encoded_value\<close> when \<open>L \<ge> max_encoded_value\<close> (so it is 1 when the
  two are equal) and 0 when \<open>L < max_encoded_value\<close>.
\<close>
theorem ustream_open_length_code_parameters:
  assumes "4 \<le> W" "W \<le> 65535" "2 \<le> L" "L \<le> W"
  shows "\<exists>us0 us. lz77_ustream_from_memory (Some s) n W L = Inr us0
           \<and> ustream_open us0 None = Inr (0, us)
           \<and> min_value (u_length_encoder us) = (1 + spec_bit_width (W - 1) + 2) div 9 + 1
           \<and> max_encoded_value (u_length_encoder us) = min_value (u_length_encoder us) + 6
           \<and> diff_nbits (u_length_encoder us) =
               (if L \<ge> max_encoded_value (u_length_encoder us)
                then spec_bit_width (L - max_encoded_value (u_length_encoder us)) else 0)"
proof -
  have wb: "number_of_bits (W - 1) \<le> 16"
    using assms by (intro number_of_bits_le) auto
  define m where "m = (1 + number_of_bits (W - 1) + 2) div 9 + 1"
  have m3: "m \<le> 3" using wb by (simp add: m_def)
  have L: "L \<le> 65535" using assms by simp
  note f = tinyhuff_init_fields[OF m3 L]
  from ustream_open_from_memory[OF assms(1-3), of s n]
  obtain us0 us where o: "lz77_ustream_from_memory (Some s) n W L = Inr us0"
    "ustream_open us0 None = Inr (0, us)" "u_length_encoder us = tinyhuff_init m L"
    unfolding m_def by blast
  have "min_value (u_length_encoder us) = (1 + spec_bit_width (W - 1) + 2) div 9 + 1"
    using o(3) f(1) by (simp add: m_def number_of_bits_bit_width)
  moreover have "max_encoded_value (u_length_encoder us) = min_value (u_length_encoder us) + 6"
    using o(3) f(1,3) by simp
  moreover have "diff_nbits (u_length_encoder us) =
               (if L \<ge> max_encoded_value (u_length_encoder us)
                then spec_bit_width (L - max_encoded_value (u_length_encoder us)) else 0)"
    using o(3) f(3,4) by (simp add: number_of_bits_bit_width)
  ultimately show ?thesis using o(1,2) by blast
qed

theorem ustream_open_length_code_parameters_witness:
  "\<exists>us0 us. lz77_ustream_from_memory (Some []) 0 8 7 = Inr us0
           \<and> ustream_open us0 None = Inr (0, us)
           \<and> min_value (u_length_encoder us) = (1 + spec_bit_width (8 - 1) + 2) div 9 + 1
           \<and> max_encoded_value (u_length_encoder us) = min_value (u_length_encoder us) + 6
           \<and> diff_nbits (u_length_encoder us) =
               (if 7 \<ge> max_encoded_value (u_length_encoder us)
                then spec_bit_width (7 - max_encoded_value (u_length_encoder us)) else 0)"
  using ustream_open_length_code_parameters[of 8 7 "[]" 0] by simp

text \<open>
  Claim C5 as stated asks for \<open>diff_nbits = 0\<close> when \<open>L \<le> max_encoded_value\<close>.  With
  \<open>W = 8\<close> and \<open>L = 7\<close> the two are equal and \<open>tinyhuff_init\<close> sets \<open>diff_nbits = 1\<close>:
  \<open>tinyhuff_encode\<close> sends a length equal to \<open>max_encoded_value\<close> with a suffix and
  asserts \<open>diff_nbits > 0\<close>.
\<close>
theorem diff_nbits_at_max_encoded_counterexample:
  "7 \<le> max_encoded_value (u_length_encoder (snd (projr (ustream_open
            (projr (lz77_ustream_from_memory (Some []) 0 8 7)) None))))
   \<and> diff_nbits (u_length_encoder (snd (projr (ustream_open
            (projr (lz77_ustream_from_memory (Some []) 0 8 7)) None)))) = 1"
  by (simp add: lz77_ustream_from_memory_def ustream_open_def lz77_tree_init_def
        malloc_tree_def LZ77_MIN_WINDOW_SIZE_def LZ77_MIN_LOOKAHEAD_SIZE_def Let_def
        LZ77_TYPE_BITS_def LZ77_TINYHUFF_MIN_CODE_BITS_def LZ77_SYMBOL_BITS_def LZ77_NEXT_BITS_def
        tinyhuff_init_def ENCODING_TABLE_SIZE_def encoding_table_def number_of_bits.simps)

text \<open>
  Claim C2 fails on the code at \<open>(W, L) = (2048, 2048)\<close> and \<open>v = 8\<close>: \<open>min_value = 2\<close>,
  the value can be encoded, and \<open>tinyhuff_encode\<close> returns a code of 17 bits.  It does not
  fit a 16-bit word; on its first 16 bits, with \<open>peeked_length = 16\<close>, \<open>tinyhuff_decode\<close>
  consumes nothing.
\<close>
theorem tinyhuff_long_code_not_decodable:
  "\<exists>us0 us. lz77_ustream_from_memory (Some []) 0 2048 2048 = Inr us0
     \<and> ustream_open us0 None = Inr (0, us)
     \<and> min_value (u_length_encoder us) = 2
     \<and> tinyhuff_can_encode (u_length_encoder us) 8
     \<and> tinyhuff_encode (u_length_encoder us) 8 = Inr (17, 2048)
     \<and> tinyhuff_decode (u_length_encoder us) (drop_bit (17 - 16) 2048) 16 0 = Inr (0, 8)"
proof -
  have nb: "(1 + number_of_bits (2048 - 1) + 2) div 9 + 1 = 2"
    by (simp add: number_of_bits.simps)
  from ustream_open_from_memory[of 2048 2048 "[]" 0]
  obtain us0 us where o: "lz77_ustream_from_memory (Some []) 0 2048 2048 = Inr us0"
    "ustream_open us0 None = Inr (0, us)" "u_length_encoder us = tinyhuff_init 2 2048"
    unfolding nb by auto
  have i: "tinyhuff_init 2 2048 =
      \<lparr>min_value = 2, max_value = 2048, max_encoded_value = 8, diff_nbits = 11\<rparr>"
    by (simp add: tinyhuff_init_def ENCODING_TABLE_SIZE_def encoding_table_def
        number_of_bits.simps)
  have "tinyhuff_can_encode (tinyhuff_init 2 2048) 8"
    by (simp add: i tinyhuff_can_encode_def)
  moreover have "tinyhuff_encode (tinyhuff_init 2 2048) 8 = Inr (17, 2048)"
    by (simp add: i tinyhuff_encode_def ENCODING_TABLE_SIZE_def encoding_table_def)
  moreover have "tinyhuff_decode (tinyhuff_init 2 2048) (drop_bit (17 - 16) 2048) 16 0 = Inr (0, 8)"
    by (simp add: i tinyhuff_decode_def decoding_table_def MAX_CODE_BITS_def
        LZ77_TINYHUFF_MIN_CODE_BITS_def drop_bit_eq_div)
  ultimately show ?thesis using o i by auto
qed

text \<open>The decoder never consumes more than the 16 bits it is shown.\<close>
lemma tinyhuff_decode_consumes_at_most_peeked:
  "tinyhuff_decode enc p len v = Inr (c, v') \<Longrightarrow> c \<le> len \<and> c \<le> 16"
  unfolding tinyhuff_decode_def Let_def
  by (simp split: if_splits)

subsection \<open>Creating the input streams\<close>

text \<open>
  Claim C9, amended.  Creating a compression-input stream fails with \<open>EINVAL\<close> whenever the
  data pointer is \<open>NULL\<close> (from memory) or the descriptor is negative (from a descriptor),
  the window size is below 4, or the look-ahead size is below 2; when none of these holds
  and the look-ahead size does not exceed the window size, it returns a stream.
\<close>
theorem ustream_creators_check_arguments:
  "(data = None \<or> W < 4 \<or> L < 2 \<longrightarrow> lz77_ustream_from_memory data n W L = Inl EINVAL)
   \<and> (fd < 0 \<or> W < 4 \<or> L < 2 \<longrightarrow> lz77_ustream_from_descriptor fd W L = Inl EINVAL)
   \<and> (data \<noteq> None \<and> 4 \<le> W \<and> 2 \<le> L \<and> L \<le> W
        \<longrightarrow> (\<exists>us. lz77_ustream_from_memory data n W L = Inr us))
   \<and> (0 \<le> fd \<and> 4 \<le> W \<and> 2 \<le> L \<and> L \<le> W
        \<longrightarrow> (\<exists>us. lz77_ustream_from_descriptor fd W L = Inr us))"
  by (auto simp add: lz77_ustream_from_memory_def lz77_ustream_from_descriptor_def
      LZ77_MIN_WINDOW_SIZE_def LZ77_MIN_LOOKAHEAD_SIZE_def Let_def)

theorem ustream_creators_check_arguments_witness:
  "lz77_ustream_from_memory None 0 4 2 = Inl EINVAL
   \<and> lz77_ustream_from_memory (Some [1, 2]) 2 3 2 = Inl EINVAL
   \<and> lz77_ustream_from_descriptor 3 4 1 = Inl EINVAL
   \<and> (\<exists>us. lz77_ustream_from_memory (Some [1, 2]) 2 4 2 = Inr us)
   \<and> (\<exists>us. lz77_ustream_from_descriptor 3 4 2 = Inr us)"
  using ustream_creators_check_arguments[of None 4 2 0 3]
    ustream_creators_check_arguments[of "Some [1, 2]" 3 2 2 3]
    ustream_creators_check_arguments[of "Some [1, 2]" 4 1 2 3]
    ustream_creators_check_arguments[of "Some [1, 2]" 4 2 2 3]
  by simp

text \<open>
  Claim C9 as stated promises a stream whenever the sizes are in range; a negative
  descriptor is refused with \<open>EINVAL\<close> although \<open>W = 4\<close> and \<open>L = 2\<close> are valid.
\<close>
theorem from_descriptor_invalid_fd_counterexample:
  "\<not> (4::nat) < 4 \<and> \<not> (2::nat) < 2 \<and> \<not> (2::nat) > 4
   \<and> lz77_ustream_from_descriptor (- 1) 4 2 = Inl EINVAL"
  by (simp add: lz77_ustream_from_descriptor_def)

text \<open>Neither creator compares the look-ahead size with the window size.\<close>
lemma lz77_ustream_from_memory_accepts_lookahead_above_window:
  "\<exists>us. lz77_ustream_from_memory (Some [1, 2]) 2 4 5 = Inr us"
  by (simp add: lz77_ustream_from_memory_def LZ77_MIN_WINDOW_SIZE_def LZ77_MIN_LOOKAHEAD_SIZE_def)

subsection \<open>Running the model on concrete inputs\<close>

text \<open>Unfolding rules for closed terms: small lists, and every function of the model.\<close>

lemma replicate_small_eval:
  "replicate 5 x = [x, x, x, x, x]"
  "replicate 12 x = [x, x, x, x, x, x, x, x, x, x, x, x]"
  by (simp_all add: numeral_eq_Suc)

lemma list_update_numeral_eval: "(x # xs)[numeral k := y] = x # xs[pred_numeral k := y]"
  by (simp add: numeral_eq_Suc)

lemma upt_1_numeral_eval:
  "[1..<numeral n] = (if (1::nat) < numeral n then 1 # [2..<numeral n] else [])"
  "[Suc 0..<numeral n] = (if (1::nat) < numeral n then 1 # [2..<numeral n] else [])"
  by (simp_all add: upt_rec[of 1] upt_rec[of "Suc 0"] numeral_2_eq_2)

lemmas eval_list = replicate_small_eval list_update_numeral_eval upt_1_numeral_eval

lemmas eval_defs =
  lz77_ustream_from_memory_def lz77_ustream_to_memory_def lz77_cstream_from_memory_def
  lz77_cstream_to_memory_def lz77_tree_init_def ustream_open_def tinyhuff_init_def
  ENCODING_TABLE_SIZE_def encoding_table_def decoding_table_def
  LZ77PPM_VERSION_def LZ77_TYPE_BITS_def LZ77_NEXT_BITS_def LZ77_SYMBOL_BITS_def
  LZ77_MIN_WINDOW_SIZE_def LZ77_MIN_LOOKAHEAD_SIZE_def LZ77_TINYHUFF_MIN_CODE_BITS_def
  MAX_CODE_BITS_def UNUSED_def calloc_tinyhuff_def malloc_tree_def malloc_bytes_def
  number_of_bits.simps tinyhuff_encode_def tinyhuff_can_encode_def tinyhuff_decode_def
  bit_get_def bit_set_def be16_bytes_def be16_value_def be64_bytes_def
  peek_bits.simps cstream_peek_def cstream_consume_def cstream_read_loop.simps cstream_read_def
  cstream_write_grow_def cstream_write_store_def cstream_write_def cstream_write_bits_flush_def
  cstream_write_bits_cache_def cstream_write_bits_def cstream_close_def lz77_cstream_get_processed_bits_def
  header_magic_def cstream_open_def
  lz77_tree_contract_node_def lz77_tree_replace_node_def find_next_loop.simps
  lz77_tree_find_next_node_def lz77_tree_delete_node.simps match_loop.simps
  find_and_add_loop.simps lz77_find_and_add_def advance_loop.simps ustream_find_and_advance_def
  copy_loop.simps ustream_save_grow_def ustream_save_copy_def ustream_save_slide_def
  ustream_save_def ustream_close_def compress_loop.simps lz77_compress_def
  decode_length_loop.simps decompress_loop.simps lz77_decompress_def
  test_variable_length_i_def Let_def

subsection \<open>The round trip\<close>

text \<open>
  \<open>ustream_open\<close> stores the 32-bit \<open>size\<close> in the 16-bit \<open>lookahead_currsize\<close>.  For an
  input of 65536 bytes that is 0, the end-of-input value: the compressor writes the header
  and the terminating token only, whatever the bytes are.
\<close>
lemma compress_truncated_size:
  "length s = 65536 \<Longrightarrow>
   test_variable_length_i (Suc n) s 4 2 =
     Some (Inr (14, [76, 90, 55, 55, 16, 0, 0, 0, 0, 4, 0, 2, 128, 0], 0, []))"
  by (simp add: eval_defs eval_list)

text \<open>
  Claim C1 fails on the code at \<open>W = 4\<close>, \<open>L = 2\<close> and \<open>s\<close> = 65536 zero bytes: with any
  bound of at least one round, the round-trip test yields 14 compressed bytes and a
  decompressed size of 0 with no bytes, where the claim asks for \<open>s\<close> and 65536.
\<close>
theorem roundtrip_fails_at_65536_bytes:
  "test_variable_length_i (Suc n) (replicate 65536 0) 4 2 =
     Some (Inr (14, [76, 90, 55, 55, 16, 0, 0, 0, 0, 4, 0, 2, 128, 0], 0, []))"
  by (rule compress_truncated_size) (simp only: length_replicate)

text \<open>
  A second defect on the same path.  When the decoder, shown its 16 bits, consumes
  nothing, the loop of \<open>lz77_decompress\<close> around it peeks the same bits again: on a
  memory-backed stream it never ends.  This is what a length code longer than 16 bits
  (see claim C2) leads to.
\<close>
lemma decode_length_loop_never_returns:
  assumes "cstream_peek cs [0, 0] 0 16 = Inr (p, peek)"
    and "\<And>len. \<exists>len'. tinyhuff_decode enc (be16_value peek) p len = Inr (0, len')"
  shows "decode_length_loop fuel cs enc len = None"
proof (induction fuel arbitrary: len)
  case 0
  show ?case by (simp add: decode_length_loop.simps)
next
  case (Suc fuel)
  from assms(2)[of len] obtain len' where
    d: "tinyhuff_decode enc (be16_value peek) p len = Inr (0, len')" by blast
  show ?case
    by (subst decode_length_loop.simps) (simp add: assms(1) d Suc.IH)
qed

subsection \<open>Malformed tokens\<close>

text \<open>
  Claim C8 fails on the code.  Two streams with the header of \<open>W = 4\<close>, \<open>L = 2\<close>: in the
  first, the first token is a phrase with offset 3 and length 1 while the window is empty;
  in the second, a symbol is followed by a phrase whose length code decodes to 4, above
  \<open>L\<close>.  \<open>lz77_decompress\<close> does not return \<open>- 1\<close> on either: the run ends in a failed
  assertion (of \<open>ustream_save\<close>, and of \<open>tinyhuff_decode\<close>).
\<close>
theorem decompress_asserts_on_malformed_tokens:
  "(\<exists>cs us. lz77_cstream_from_memory (Some [76, 90, 55, 55, 16, 0, 0, 0, 0, 4, 0, 2, 248, 0]) 14
               = Inr cs
      \<and> lz77_ustream_to_memory (Some cs) None 0 1 = Inr us
      \<and> lz77_decompress (Suc n) cs us = Some (Inl AssertionFailed))
   \<and> (\<exists>cs us. lz77_cstream_from_memory
                 (Some [76, 90, 55, 55, 16, 0, 0, 0, 0, 4, 0, 2, 32, 194, 0]) 15 = Inr cs
      \<and> lz77_ustream_to_memory (Some cs) None 0 1 = Inr us
      \<and> lz77_decompress (Suc (Suc n)) cs us = Some (Inl AssertionFailed))"
  by (simp add: eval_defs eval_list)

subsection \<open>Counting the bits written\<close>

lemma cstream_write_grow_fields:
  assumes "cstream_write_grow cs n = Inr (Some cs1)"
  shows "c_cached_nbits cs1 = c_cached_nbits cs" "c_cached cs1 = c_cached cs"
    "c_processed_bits cs1 = c_processed_bits cs" "c_end cs1 = c_end cs"
    "c_is_input cs1 = c_is_input cs" "c_fd cs1 = c_fd cs"
proof -
  have "cs1 = cs \<or> (\<exists>sz d. cs1 = cs\<lparr> c_size := sz, c_data := d \<rparr>)"
    using assms unfolding cstream_write_grow_def Let_def
    by (cases "c_end cs div 8 + n > c_size cs"; cases "c_fd cs \<ge> 0"; cases "c_can_realloc cs = 0")
       auto
  then show "c_cached_nbits cs1 = c_cached_nbits cs" "c_cached cs1 = c_cached cs"
    "c_processed_bits cs1 = c_processed_bits cs" "c_end cs1 = c_end cs"
    "c_is_input cs1 = c_is_input cs" "c_fd cs1 = c_fd cs"
    by auto
qed

lemma cstream_write_store_fields:
  assumes "cstream_write_store cs buf n = Inr (r, cs')"
  shows "r = 0" "c_cached_nbits cs' = c_cached_nbits cs" "c_cached cs' = c_cached cs"
    "c_processed_bits cs' = (c_processed_bits cs + n * 8) mod 2 ^ 64"
    "c_end cs' = c_end cs + n * 8" "c_is_input cs' = c_is_input cs" "c_fd cs' = c_fd cs"
  using assms unfolding cstream_write_store_def
  by (auto split: if_splits)

lemma cstream_write_counts:
  assumes "cstream_write cs buf n = Inr (r, cs')"
  shows "c_cached_nbits cs' = c_cached_nbits cs \<and> c_cached cs' = c_cached cs
    \<and> (r = 0 \<or> r = - 1)
    \<and> (r = 0 \<longrightarrow> c_processed_bits cs' = (c_processed_bits cs + n * 8) mod 2 ^ 64)
    \<and> (r \<noteq> 0 \<longrightarrow> cs' = cs)
    \<and> c_is_input cs' = c_is_input cs"
proof -
  from assms have a: "c_is_input cs = 0" "c_end cs mod 8 = 0"
    unfolding cstream_write_def by (auto split: if_splits)
  show ?thesis
  proof (cases "cstream_write_grow cs n")
    case (Inl e)
    with assms a show ?thesis by (simp add: cstream_write_def)
  next
    case (Inr g)
    show ?thesis
    proof (cases g)
      case None
      with Inr assms a show ?thesis by (simp add: cstream_write_def)
    next
      case (Some cs1)
      with Inr assms a have s: "cstream_write_store cs1 buf n = Inr (r, cs')"
        by (simp add: cstream_write_def)
      from Inr Some have g: "cstream_write_grow cs n = Inr (Some cs1)" by simp
      show ?thesis
        using cstream_write_store_fields[OF s] cstream_write_grow_fields[OF g] by simp
    qed
  qed
qed

lemma cstream_write_bits_counts:
  assumes "cstream_write_bits cs reg startbit nbits = Inr (0, cs')"
    and "c_processed_bits cs + c_cached_nbits cs < 2 ^ 64"
  shows "c_processed_bits cs' + c_cached_nbits cs'
           = c_processed_bits cs + c_cached_nbits cs + nbits"
proof -
  from assms(1) obtain cs2 where
    fl: "cstream_write_bits_flush cs nbits = Inr (0, cs2)" and
    ca: "cstream_write_bits_cache cs2 reg startbit nbits = Inr cs'"
    unfolding cstream_write_bits_def
    by (auto split: if_splits sum.splits)
  from ca have c': "c_cached_nbits cs' = c_cached_nbits cs2 + nbits"
    "c_processed_bits cs' = c_processed_bits cs2"
    unfolding cstream_write_bits_cache_def Let_def
    by (auto split: if_splits)
  let ?c = "c_cached_nbits cs"
  have "c_processed_bits cs2 + c_cached_nbits cs2 = c_processed_bits cs + ?c"
  proof (cases "?c + nbits > 64")
    case False
    with fl show ?thesis by (simp add: cstream_write_bits_flush_def)
  next
    case True
    with fl obtain r cs1 where
      w: "cstream_write cs (be64_bytes (c_cached cs)) (?c div 8) = Inr (r, cs1)"
      unfolding cstream_write_bits_flush_def by (auto split: if_splits sum.splits)
    from cstream_write_counts[OF w] have
      f1: "c_cached_nbits cs1 = c_cached_nbits cs" and
      f4: "r = 0 \<Longrightarrow> c_processed_bits cs1 = (c_processed_bits cs + ?c div 8 * 8) mod 2 ^ 64"
      by simp_all
    from fl True w have r0: "r = 0" and
      cs2: "c_cached_nbits cs2 = c_cached_nbits cs1 mod 8" "c_processed_bits cs2 = c_processed_bits cs1"
      unfolding cstream_write_bits_flush_def by (auto split: if_splits)
    have "?c div 8 * 8 \<le> ?c" by simp
    with assms(2) have "c_processed_bits cs + ?c div 8 * 8 < 2 ^ 64" by linarith
    then have "c_processed_bits cs1 = c_processed_bits cs + ?c div 8 * 8"
      using f4[OF r0] by simp
    moreover have "?c div 8 * 8 + ?c mod 8 = ?c" by simp
    ultimately show ?thesis using cs2 f1 by simp
  qed
  with c' show ?thesis by simp
qed


lemma write_bits_run_counts:
  assumes "write_bits_run cs calls = Some cs'"
    and "c_processed_bits cs + c_cached_nbits cs + call_nbits calls < 2 ^ 64"
    and "k \<le> length calls"
  shows "\<exists>csk. write_bits_run cs (take k calls) = Some csk
           \<and> c_processed_bits csk + c_cached_nbits csk
               = c_processed_bits cs + c_cached_nbits cs + call_nbits (take k calls)"
  using assms
proof (induction calls arbitrary: cs k)
  case Nil
  then show ?case by (simp add: call_nbits_def)
next
  case (Cons c calls)
  obtain reg startbit nbits where c: "c = (reg, startbit, nbits)" by (cases c) auto
  from Cons.prems(1) c obtain cs1 where
    w: "cstream_write_bits cs reg startbit nbits = Inr (0, cs1)" and
    r: "write_bits_run cs1 calls = Some cs'"
    by (auto split: sum.splits if_splits)
  have b: "c_processed_bits cs + c_cached_nbits cs < 2 ^ 64"
    using Cons.prems(2) by simp
  note e = cstream_write_bits_counts[OF w b]
  show ?case
  proof (cases k)
    case 0
    then show ?thesis by (simp add: call_nbits_def)
  next
    case (Suc j)
    have "c_processed_bits cs1 + c_cached_nbits cs1 + call_nbits calls < 2 ^ 64"
      using Cons.prems(2) e c by (simp add: call_nbits_def)
    moreover have "j \<le> length calls" using Cons.prems(3) Suc by simp
    ultimately obtain csk where
      "write_bits_run cs1 (take j calls) = Some csk"
      "c_processed_bits csk + c_cached_nbits csk
         = c_processed_bits cs1 + c_cached_nbits cs1 + call_nbits (take j calls)"
      using Cons.IH[OF r] by blast
    then show ?thesis using Suc c w e by (simp add: call_nbits_def)
  qed
qed

lemma cstream_open_writer_counts:
  assumes "cstream_open fuel cs0 = Some (Inr (0, cs1))" "c_is_input cs0 = 0"
  shows "c_processed_bits cs1 = (c_processed_bits cs0 + 96) mod 2 ^ 64
         \<and> c_cached_nbits cs1 = c_cached_nbits cs0 \<and> c_is_input cs1 = 0"
proof -
  let ?h = "header_magic @ [LZ77PPM_VERSION] @ [0, 0, 0]
            @ be16_bytes (c_window_maxsize cs0) @ be16_bytes (c_lookahead_maxsize cs0)"
  from assms obtain r where w: "cstream_write cs0 ?h 12 = Inr (r, cs1)" and "\<not> r < 0"
    unfolding cstream_open_def Let_def
    by (auto split: if_splits sum.splits)
  with cstream_write_counts[OF w] assms(2) show ?thesis by auto
qed

text \<open>
  Claim C10, amended.  For every writer-mode stream, fresh from its creator and opened with
  success, after any run of \<open>cstream_write_bits\<close> calls that all return 0,
  \<open>lz77_cstream_get_processed_bits\<close> returns the 96 header bits plus the sum of the
  \<open>nbits\<close> arguments, cached bits included (the total staying below \<open>2\<^sup>6\<^sup>4\<close>); this holds
  after every prefix of the run, so the value never decreases along it.
\<close>
theorem processed_bits_after_successful_writes:
  assumes "c_is_input cs0 = 0" "c_processed_bits cs0 = 0" "c_cached_nbits cs0 = 0"
    and "cstream_open fuel cs0 = Some (Inr (0, cs1))"
    and "write_bits_run cs1 calls = Some cs2"
    and "96 + call_nbits calls < 2 ^ 64"
  shows "lz77_cstream_get_processed_bits cs2 = 96 + call_nbits calls
    \<and> (\<forall>k \<le> length calls. \<exists>csk. write_bits_run cs1 (take k calls) = Some csk
           \<and> lz77_cstream_get_processed_bits csk = 96 + call_nbits (take k calls))"
proof -
  from cstream_open_writer_counts[OF assms(4) assms(1)] assms(2,3)
  have o: "c_processed_bits cs1 = 96" "c_cached_nbits cs1 = 0" by simp_all
  have b: "c_processed_bits cs1 + c_cached_nbits cs1 + call_nbits calls < 2 ^ 64"
    using o assms(6) by simp
  have p: "\<exists>csk. write_bits_run cs1 (take k calls) = Some csk
           \<and> lz77_cstream_get_processed_bits csk = 96 + call_nbits (take k calls)"
    if k: "k \<le> length calls" for k
  proof -
    from write_bits_run_counts[OF assms(5) b k] o obtain csk where
      c: "write_bits_run cs1 (take k calls) = Some csk"
      "c_processed_bits csk + c_cached_nbits csk = 96 + call_nbits (take k calls)" by auto
    have "call_nbits (take k calls) \<le> call_nbits calls"
      unfolding call_nbits_def
      by (metis append_take_drop_id le_add1 map_append sum_list.append)
    with assms(6) c(2) have "lz77_cstream_get_processed_bits csk = 96 + call_nbits (take k calls)"
      by (simp add: lz77_cstream_get_processed_bits_def)
    with c(1) show ?thesis by blast
  qed
  from p[of "length calls"] assms(5) have "lz77_cstream_get_processed_bits cs2 = 96 + call_nbits calls"
    by simp
  with p show ?thesis by blast
qed

lemma fixed_writer_opened_eval:
  "cstream_open 1 fixed_writer = Some (Inr (0, fixed_writer_opened))"
  "c_is_input fixed_writer = 0" "c_processed_bits fixed_writer = 0" "c_cached_nbits fixed_writer = 0"
  by (simp_all add: eval_defs eval_list)

lemma seven_symbols_eval:
  "write_bits_run fixed_writer_opened seven_symbols
     = Some (the (write_bits_run fixed_writer_opened seven_symbols))"
  by (simp add: eval_defs eval_list)

theorem processed_bits_after_successful_writes_witness:
  "lz77_cstream_get_processed_bits (the (write_bits_run fixed_writer_opened seven_symbols))
     = 96 + call_nbits seven_symbols"
  using processed_bits_after_successful_writes[OF fixed_writer_opened_eval(2,3,4,1) seven_symbols_eval]
  by (simp add: call_nbits_def)

text \<open>
  Claim C10 as stated covers every sequence of calls.  On a fixed buffer of 12 bytes the
  header fills the buffer; seven 9-bit writes stay in the cache (159 bits), and the eighth
  must flush: \<open>cstream_write\<close> fails, the call returns \<open>- 1\<close>, the flushed bits are
  dropped uncounted, and the function reports 112 bits, not \<open>96 + 72\<close>, and fewer than
  before the call.
\<close>
theorem processed_bits_after_failed_write_counterexample:
  "c_is_input fixed_writer_opened = 0
   \<and> lz77_cstream_get_processed_bits (the (write_bits_run fixed_writer_opened seven_symbols)) = 159
   \<and> fst (projr (cstream_write_bits (the (write_bits_run fixed_writer_opened seven_symbols))
                    65 55 9)) = - 1
   \<and> lz77_cstream_get_processed_bits
        (snd (projr (cstream_write_bits (the (write_bits_run fixed_writer_opened seven_symbols))
                       65 55 9))) = 112"
  by (simp add: eval_defs eval_list)

subsection \<open>The overlapping copy of a phrase\<close>




lemma ustream_save_slide_data [simp]: "u_data (ustream_save_slide us n) = u_data us"
  "u_end (ustream_save_slide us n) = u_end us"
  by (simp_all add: ustream_save_slide_def Let_def)




subsection \<open>The header of the compressed output\<close>

lemma cstream_write_grow_prefix:
  assumes "cstream_write_grow cs n = Inr (Some cs1)" "take 12 (c_data cs) = h" "length h = 12"
  shows "take 12 (c_data cs1) = h"
proof (cases "c_end cs div 8 + n > c_size cs")
  case False
  with assms show ?thesis by (simp add: cstream_write_grow_def)
next
  case True
  from assms(2,3) have l: "12 \<le> length (c_data cs)"
    by (metis length_take min.cobounded1 min.commute)
  define n0 where "n0 = (c_end cs div 8 + n) mod 2 ^ 32"
  define n1 where "n1 = (if n0 < 1024 then 1024 else n0)"
  define m where "m = (if n1 * 10 < c_size cs * 11 then c_size cs * 11 div 10 else n1)"
  from True assms(1) have
    d: "c_data cs1 = take m (c_data cs @ replicate (m - length (c_data cs)) 0)"
    unfolding cstream_write_grow_def Let_def m_def n1_def n0_def
    by (auto split: if_splits)
  have "1024 \<le> n1" by (simp add: n1_def)
  then have "12 \<le> m" unfolding m_def by (cases "n1 * 10 < c_size cs * 11") simp_all
  with d l assms(2) show ?thesis by (simp add: min_def)
qed

lemma cstream_write_store_prefix:
  assumes "cstream_write_store cs buf n = Inr (r, cs')" "take 12 (c_data cs) = h" "96 \<le> c_end cs"
  shows "take 12 (c_data cs') = h"
proof -
  from assms(3) have e: "12 \<le> c_end cs div 8" by simp
  from assms(1) have g: "c_end cs div 8 + n \<le> length (c_data cs)" and
    d: "c_data cs' = take (c_end cs div 8) (c_data cs) @ take n buf
                      @ drop (c_end cs div 8 + n) (c_data cs)"
    unfolding cstream_write_store_def by (auto split: if_splits)
  from g e have "12 \<le> length (take (c_end cs div 8) (c_data cs))" by simp
  then have "take 12 (c_data cs') = take 12 (take (c_end cs div 8) (c_data cs))"
    unfolding d by simp
  also have "\<dots> = take 12 (c_data cs)" using e by (simp add: min_def)
  finally show ?thesis using assms(2) by simp
qed

lemma cstream_write_prefix:
  assumes "cstream_write cs buf n = Inr (r, cs')" "take 12 (c_data cs) = h" "length h = 12"
    "96 \<le> c_end cs"
  shows "take 12 (c_data cs') = h \<and> 96 \<le> c_end cs'"
proof (cases "cstream_write_grow cs n")
  case (Inl e)
  with assms(1) show ?thesis by (simp add: cstream_write_def split: if_splits)
next
  case (Inr g)
  show ?thesis
  proof (cases g)
    case None
    with Inr assms show ?thesis by (auto simp add: cstream_write_def split: if_splits)
  next
    case (Some cs1)
    with Inr have g: "cstream_write_grow cs n = Inr (Some cs1)" by simp
    with assms(1) have s: "cstream_write_store cs1 buf n = Inr (r, cs')"
      by (simp add: cstream_write_def split: if_splits)
    from cstream_write_grow_fields[OF g] have e: "c_end cs1 = c_end cs" by simp
    from cstream_write_store_prefix[OF s cstream_write_grow_prefix[OF g assms(2,3)]] e assms(4)
      cstream_write_store_fields[OF s]
    show ?thesis by simp
  qed
qed

lemma cstream_write_bits_prefix:
  assumes "cstream_write_bits cs reg startbit nbits = Inr (r, cs')" "take 12 (c_data cs) = h"
    "length h = 12" "96 \<le> c_end cs"
  shows "take 12 (c_data cs') = h \<and> 96 \<le> c_end cs'"
proof -
  from assms(1) obtain cs2 where
    fl: "cstream_write_bits_flush cs nbits = Inr (r, cs2)" and
    ca: "cstream_write_bits_cache cs2 reg startbit nbits = Inr cs'"
    unfolding cstream_write_bits_def
    by (auto split: if_splits sum.splits)
  from ca have c: "c_data cs' = c_data cs2" "c_end cs' = c_end cs2"
    unfolding cstream_write_bits_cache_def Let_def by (auto split: if_splits)
  have "take 12 (c_data cs2) = h \<and> 96 \<le> c_end cs2"
  proof (cases "c_cached_nbits cs + nbits > 64")
    case False
    with fl assms show ?thesis by (simp add: cstream_write_bits_flush_def)
  next
    case True
    with fl obtain r1 cs1 where
      w: "cstream_write cs (be64_bytes (c_cached cs)) (c_cached_nbits cs div 8) = Inr (r1, cs1)"
      and d: "c_data cs2 = c_data cs1" "c_end cs2 = c_end cs1"
      unfolding cstream_write_bits_flush_def by (auto split: if_splits sum.splits)
    from cstream_write_prefix[OF w assms(2,3,4)] d show ?thesis by simp
  qed
  with c show ?thesis by simp
qed

lemma cstream_close_prefix:
  assumes "cstream_close cs = Inr (r, cs')" "take 12 (c_data cs) = h" "length h = 12"
    "96 \<le> c_end cs"
  shows "take 12 (c_data cs') = h"
proof (cases "c_cached_nbits cs > 0")
  case False
  with assms show ?thesis by (auto simp add: cstream_close_def Let_def split: if_splits)
next
  case True
  with assms(1) obtain r1 cs1 where
    w: "cstream_write cs (be64_bytes (c_cached cs)) ((c_cached_nbits cs + 7) div 8) = Inr (r1, cs1)"
    and d: "c_data cs' = c_data cs1"
    unfolding cstream_close_def Let_def by (auto split: if_splits sum.splits)
  from cstream_write_prefix[OF w assms(2,3,4)] d show ?thesis by simp
qed

lemma compress_loop_prefix:
  assumes "compress_loop fuel us cs offset len next = Some (Inr (r, us', cs'))"
    "take 12 (c_data cs) = h" "length h = 12" "96 \<le> c_end cs"
  shows "take 12 (c_data cs') = h \<and> 96 \<le> c_end cs'"
  using assms
proof (induction fuel us cs offset len "next" rule: compress_loop.induct)
  case (1 fuel us cs offset len "next")
  from "1.prems"(1) have f: "fuel \<noteq> 0"
    by (subst (asm) compress_loop.simps) (simp split: if_splits)
  from "1.prems"(1) f obtain r0 offset1 length1 next1 us1 where
    a: "ustream_find_and_advance fuel us offset len next
          = Some (Inr (r0, offset1, length1, next1, us1))"
    by (subst (asm) compress_loop.simps) (auto split: option.splits sum.splits)
  show ?case
  proof (cases "r0 > 0")
    case False
    with "1.prems" f a show ?thesis
      by (subst (asm) compress_loop.simps) simp
  next
    case True
    let ?tok = "(if length1 \<noteq> 0 then
                   (case tinyhuff_encode (u_length_encoder us1) length1 of
                      Inl e \<Rightarrow> Inl e
                    | Inr (tb, code) \<Rightarrow>
                        let token1 = (push_bit (u_window_nbits us1) 1 OR offset1) mod 2 ^ 64;
                            token2 = (push_bit tb token1 OR code) mod 2 ^ 64
                        in Inr (token2, (LZ77_TYPE_BITS + u_window_nbits us1 + tb) mod 65536, code))
                 else Inr ((push_bit LZ77_NEXT_BITS 0 OR next1) mod 2 ^ 64,
                           LZ77_SYMBOL_BITS, length1))"
    from "1.prems"(1) f a True obtain token tbits length2 where
      t: "?tok = Inr (token, tbits, length2)"
      by (subst (asm) compress_loop.simps) (auto simp add: Let_def split: sum.splits)
    from "1.prems"(1) f a True t obtain w cs1 where
      wb: "cstream_write_bits cs token (nat ((64 - int tbits) mod 65536)) tbits = Inr (w, cs1)"
      by (subst (asm) compress_loop.simps) (auto simp add: Let_def split: sum.splits)
    note p = cstream_write_bits_prefix[OF wb "1.prems"(2,3,4)]
    show ?thesis
    proof (cases "w < 0")
      case True
      with "1.prems"(1) f a \<open>r0 > 0\<close> t wb have "cs' = cs1"
        by (subst (asm) compress_loop.simps) (simp add: Let_def)
      with p show ?thesis by simp
    next
      case False
      with "1.prems"(1) f a \<open>r0 > 0\<close> t wb have
        rec: "compress_loop (fuel - 1) us1 cs1 offset1 length2 next1 = Some (Inr (r, us', cs'))"
        by (subst (asm) compress_loop.simps) (simp add: Let_def)
      show ?thesis
        using "1.IH"[OF f a refl refl refl refl refl \<open>r0 > 0\<close> refl t refl refl refl wb refl
            False rec] p "1.prems"(3)
        by simp
    qed
  qed
qed


lemma cstream_open_writer_header:
  assumes "cstream_open fuel cs0 = Some (Inr (0, cs1))" "c_is_input cs0 = 0" "c_end cs0 = 0"
  shows "take 12 (c_data cs1) = header_bytes (c_window_maxsize cs0) (c_lookahead_maxsize cs0)
         \<and> c_end cs1 = 96"
proof -
  let ?h = "header_magic @ [LZ77PPM_VERSION] @ [0, 0, 0]
            @ be16_bytes (c_window_maxsize cs0) @ be16_bytes (c_lookahead_maxsize cs0)"
  have lh: "length ?h = 12" by (simp add: header_magic_def be16_bytes_def)
  from assms(1,2) obtain r where w: "cstream_write cs0 ?h 12 = Inr (r, cs1)" and "\<not> r < 0"
    unfolding cstream_open_def Let_def
    by (auto split: if_splits sum.splits)
  with cstream_write_counts[OF w] have r0: "r = 0" by auto
  from w r0 assms(2) obtain csg where
    g: "cstream_write_grow cs0 12 = Inr (Some csg)" and
    st: "cstream_write_store csg ?h 12 = Inr (0, cs1)"
    unfolding cstream_write_def by (auto split: if_splits sum.splits option.splits)
  from cstream_write_grow_fields[OF g] assms(3) have e: "c_end csg = 0" by simp
  from st e have "c_data cs1 = ?h @ drop 12 (c_data csg)" "c_end cs1 = 96"
    unfolding cstream_write_store_def using lh by (auto split: if_splits)
  then show ?thesis
    by (simp add: header_bytes_def header_magic_def be16_bytes_def LZ77PPM_VERSION_def)
qed

lemma cstream_open_result:
  assumes "cstream_open fuel cs0 = Some (Inr (r, cs1))"
  shows "r = 0 \<or> r = - 1"
  using assms unfolding cstream_open_def Let_def
  by (auto split: if_splits sum.splits option.splits)

lemma cstream_write_bits_result:
  assumes "cstream_write_bits cs reg startbit nbits = Inr (r, cs')"
  shows "r = 0 \<or> r = - 1"
proof -
  from assms obtain cs2 where
    fl: "cstream_write_bits_flush cs nbits = Inr (r, cs2)"
    unfolding cstream_write_bits_def by (auto split: if_splits sum.splits)
  show ?thesis
  proof (cases "c_cached_nbits cs + nbits > 64")
    case False
    with fl show ?thesis by (simp add: cstream_write_bits_flush_def)
  next
    case True
    with fl obtain cs1 where
      "cstream_write cs (be64_bytes (c_cached cs)) (c_cached_nbits cs div 8) = Inr (r, cs1)"
      unfolding cstream_write_bits_flush_def by (auto split: if_splits sum.splits)
    from cstream_write_counts[OF this] show ?thesis by simp
  qed
qed

lemma compress_loop_result:
  assumes "compress_loop fuel us cs offset len next = Some (Inr (r, us', cs'))"
  shows "r = 0 \<or> r = - 1"
  using assms
proof (induction fuel us cs offset len "next" rule: compress_loop.induct)
  case (1 fuel us cs offset len "next")
  from "1.prems"(1) have f: "fuel \<noteq> 0"
    by (subst (asm) compress_loop.simps) (simp split: if_splits)
  from "1.prems"(1) f obtain r0 offset1 length1 next1 us1 where
    a: "ustream_find_and_advance fuel us offset len next
          = Some (Inr (r0, offset1, length1, next1, us1))"
    by (subst (asm) compress_loop.simps) (auto split: option.splits sum.splits)
  show ?case
  proof (cases "r0 > 0")
    case False
    with "1.prems" f a show ?thesis
      by (subst (asm) compress_loop.simps) simp
  next
    case True
    let ?tok = "(if length1 \<noteq> 0 then
                   (case tinyhuff_encode (u_length_encoder us1) length1 of
                      Inl e \<Rightarrow> Inl e
                    | Inr (tb, code) \<Rightarrow>
                        let token1 = (push_bit (u_window_nbits us1) 1 OR offset1) mod 2 ^ 64;
                            token2 = (push_bit tb token1 OR code) mod 2 ^ 64
                        in Inr (token2, (LZ77_TYPE_BITS + u_window_nbits us1 + tb) mod 65536, code))
                 else Inr ((push_bit LZ77_NEXT_BITS 0 OR next1) mod 2 ^ 64,
                           LZ77_SYMBOL_BITS, length1))"
    from "1.prems"(1) f a True obtain token tbits length2 where
      t: "?tok = Inr (token, tbits, length2)"
      by (subst (asm) compress_loop.simps) (auto simp add: Let_def split: sum.splits)
    from "1.prems"(1) f a True t obtain w cs1 where
      wb: "cstream_write_bits cs token (nat ((64 - int tbits) mod 65536)) tbits = Inr (w, cs1)"
      by (subst (asm) compress_loop.simps) (auto simp add: Let_def split: sum.splits)
    show ?thesis
    proof (cases "w < 0")
      case True
      with "1.prems"(1) f a \<open>r0 > 0\<close> t wb show ?thesis
        by (subst (asm) compress_loop.simps) (simp add: Let_def)
    next
      case False
      with "1.prems"(1) f a \<open>r0 > 0\<close> t wb have
        rec: "compress_loop (fuel - 1) us1 cs1 offset1 length2 next1 = Some (Inr (r, us', cs'))"
        by (subst (asm) compress_loop.simps) (simp add: Let_def)
      show ?thesis
        using "1.IH"[OF f a refl refl refl refl refl \<open>r0 > 0\<close> refl t refl refl refl wb refl
            False rec]
        by simp
    qed
  qed
qed

lemma lz77_compress_success:
  assumes "lz77_compress fuel us0 cs0 = Some (Inr (r, us', cs'))" "0 \<le> r"
  shows "\<exists>us cs us1 cs1 token startbit tbits cs2 r5.
           cstream_open fuel cs0 = Some (Inr (0, cs))
         \<and> compress_loop fuel us cs 0 0 0 = Some (Inr (0, us1, cs1))
         \<and> cstream_write_bits cs1 token startbit tbits = Inr (0, cs2)
         \<and> cstream_close cs2 = Inr (r5, cs')"
proof -
  from assms obtain r1 us where
    a1: "ustream_open us0 None = Inr (r1, us)" "\<not> r1 < 0"
    unfolding lz77_compress_def by (cases "ustream_open us0 None") (auto split: if_splits)
  from assms a1 obtain r2 cs where
    a2: "cstream_open fuel cs0 = Some (Inr (r2, cs))" "\<not> r2 < 0"
    unfolding lz77_compress_def
    by (cases "cstream_open fuel cs0") (auto split: if_splits sum.splits)
  from cstream_open_result[OF a2(1)] a2(2) have r2: "r2 = 0" by auto
  from assms a1 a2 obtain r3 us1 cs1 where
    a3: "compress_loop fuel us cs 0 0 0 = Some (Inr (r3, us1, cs1))" "\<not> r3 < 0"
    unfolding lz77_compress_def
    by (cases "compress_loop fuel us cs 0 0 0") (auto split: if_splits sum.splits)
  from assms a1 a2 a3 obtain tb code where
    a4: "tinyhuff_encode (u_length_encoder us1) 0 = Inr (tb, code)"
    unfolding lz77_compress_def
    by (cases "tinyhuff_encode (u_length_encoder us1) 0") auto
  let ?token = "(push_bit tb (push_bit (u_window_nbits us1) 1) OR code) mod 2 ^ 64"
  let ?tbits = "(LZ77_TYPE_BITS + u_window_nbits us1 + tb) mod 65536"
  let ?startbit = "nat ((64 - int ?tbits) mod 2 ^ 32) mod 65536"
  from assms a1 a2 a3 a4 obtain w cs2 where
    a5: "cstream_write_bits cs1 ?token ?startbit ?tbits = Inr (w, cs2)" "\<not> w < 0"
    unfolding lz77_compress_def Let_def
    by (cases "cstream_write_bits cs1 ?token ?startbit ?tbits") (auto split: if_splits)
  from assms a1 a2 a3 a4 a5 obtain r4 us2 where
    a6: "ustream_close us1 = Inr (r4, us2)"
    unfolding lz77_compress_def Let_def
    by (cases "ustream_close us1") auto
  from assms a1 a2 a3 a4 a5 a6 obtain r5 where
    a7: "cstream_close cs2 = Inr (r5, cs')"
    unfolding lz77_compress_def Let_def
    by (cases "cstream_close cs2") auto
  from assms a1 a2 a3 have r3: "r3 = 0 \<or> 0 < r3" by auto
  have "r3 = 0"
  proof (rule ccontr)
    assume "r3 \<noteq> 0"
    with compress_loop_result[OF a3(1)] a3(2) show False by auto
  qed
  moreover from cstream_write_bits_result[OF a5(1)] a5(2) have "w = 0" by auto
  ultimately show ?thesis using a2(1) r2 a3(1) a5(1) a7 by blast
qed

text \<open>
  Claim C6.  For every input and every \<open>(W, L)\<close> the creator accepts, the buffer of a
  compression that does not return \<open>- 1\<close> begins with the 12 header bytes: \<open>LZ77\<close>, the
  version \<open>0x10\<close>, three zero bytes, \<open>W\<close> and \<open>L\<close> as big-endian 16-bit integers.
\<close>
theorem compress_output_begins_with_header:
  assumes "lz77_ustream_from_memory (Some s) n W L = Inr us0"
    and "lz77_cstream_to_memory (Some us0) buf sz can_realloc = Inr cs0"
    and "lz77_compress fuel us0 cs0 = Some (Inr (r, us', cs'))" and "0 \<le> r"
    and "W \<le> 65535" and "L \<le> 65535"
  shows "take 12 (c_data cs') =
           [0x4C, 0x5A, 0x37, 0x37, 0x10, 0, 0, 0, W div 256, W mod 256, L div 256, L mod 256]"
proof -
  from assms(1) have u: "u_window_maxsize us0 = W" "u_lookahead_maxsize us0 = L"
    by (auto simp add: lz77_ustream_from_memory_def split: if_splits)
  from assms(2) u have c: "c_is_input cs0 = 0" "c_end cs0 = 0"
    "c_window_maxsize cs0 = W" "c_lookahead_maxsize cs0 = L"
    by (auto simp add: lz77_cstream_to_memory_def)
  from lz77_compress_success[OF assms(3,4)] obtain us cs us1 cs1 token startbit tbits cs2 r5 where
    o: "cstream_open fuel cs0 = Some (Inr (0, cs))" and
    l: "compress_loop fuel us cs 0 0 0 = Some (Inr (0, us1, cs1))" and
    w: "cstream_write_bits cs1 token startbit tbits = Inr (0, cs2)" and
    cl: "cstream_close cs2 = Inr (r5, cs')" by blast
  have lh: "length (header_bytes W L) = 12" by (simp add: header_bytes_def)
  from cstream_open_writer_header[OF o c(1,2)] c(3,4) have
    h0: "take 12 (c_data cs) = header_bytes W L" "96 \<le> c_end cs" by simp_all
  from compress_loop_prefix[OF l h0(1) lh h0(2)] have
    h1: "take 12 (c_data cs1) = header_bytes W L" "96 \<le> c_end cs1" by simp_all
  from cstream_write_bits_prefix[OF w h1(1) lh h1(2)] have
    h2: "take 12 (c_data cs2) = header_bytes W L" "96 \<le> c_end cs2" by simp_all
  from cstream_close_prefix[OF cl h2(1) lh h2(2)] have "take 12 (c_data cs') = header_bytes W L" .
  moreover have "W div 256 mod 256 = W div 256" "L div 256 mod 256 = L div 256"
    using assms(5,6) by simp_all
  ultimately show ?thesis by (simp add: header_bytes_def)
qed

theorem compress_output_begins_with_header_witness:
  "take 12 (c_data (snd (snd (projr (the (lz77_compress 1
       (projr (lz77_ustream_from_memory (Some []) 0 4 2))
       (projr (lz77_cstream_to_memory (Some (projr (lz77_ustream_from_memory (Some []) 0 4 2)))
                 None 0 1)))))))) =
     [0x4C, 0x5A, 0x37, 0x37, 0x10, 0, 0, 0, 4 div 256, 4 mod 256, 2 div 256, 2 mod 256]"
proof -
  let ?us0 = "projr (lz77_ustream_from_memory (Some []) 0 4 2)"
  let ?cs0 = "projr (lz77_cstream_to_memory (Some ?us0) None 0 1)"
  have a: "lz77_ustream_from_memory (Some []) 0 4 2 = Inr ?us0"
    by (simp add: eval_defs)
  have b: "lz77_cstream_to_memory (Some ?us0) None 0 1 = Inr ?cs0"
    by (simp add: eval_defs)
  have c: "lz77_compress 1 ?us0 ?cs0
             = Some (Inr (14, fst (snd (projr (the (lz77_compress 1 ?us0 ?cs0)))),
                              snd (snd (projr (the (lz77_compress 1 ?us0 ?cs0))))))"
    by (simp add: eval_defs eval_list)
  show ?thesis
    using compress_output_begins_with_header[OF a b c] by simp
qed

end
